theory Spec2Isabelle
  imports Complex_Main "HOL-Library.Word"
begin

unbundle bit_operations_syntax

section \<open>Transport: raw Ethernet packets (socket.h, socket.c)\<close>

text \<open>
  Bytes are 8-bit words. A buffer is a list of bytes, a C pointer into it is an offset.
  The data handed to \<^verbatim>\<open>sendto\<close> is kept as a record of the Ethernet header fields
  and the payload copied behind them. Log output and sleeping are left out: they change
  neither the packets nor the state.
\<close>

type_synonym u8 = "8 word"

definition DEST_MAC :: "64 word" where "DEST_MAC = 0x112233445566"
definition ROW_ETHER_TYPE :: nat where "ROW_ETHER_TYPE = 0x5500"
definition FRAME_ETHER_TYPE :: nat where "FRAME_ETHER_TYPE = 0x0107"
definition FRAME_DATA_LENGTH :: nat where "FRAME_DATA_LENGTH = 98"

definition FRAME_BRIGHTNESS_OFFSET :: nat where "FRAME_BRIGHTNESS_OFFSET = 21"
definition FRAME_GAMMA_FLAG_OFFSET :: nat where "FRAME_GAMMA_FLAG_OFFSET = 22"
definition FRAME_BRIGHTNESS_R_OFFSET :: nat where "FRAME_BRIGHTNESS_R_OFFSET = 24"
definition FRAME_BRIGHTNESS_G_OFFSET :: nat where "FRAME_BRIGHTNESS_G_OFFSET = 25"
definition FRAME_BRIGHTNESS_B_OFFSET :: nat where "FRAME_BRIGHTNESS_B_OFFSET = 26"

definition BUF_SIZ :: nat where "BUF_SIZ = 1540"

text \<open>\<^verbatim>\<open>sizeof(struct ether_header)\<close>: two 6-byte addresses and the 16-bit type.\<close>

definition ETHER_HEADER_SIZE :: nat where "ETHER_HEADER_SIZE = 14"

text \<open>The module state of socket.c that the packets depend on.\<close>

record socket_state =
  src_mac :: "64 word"
  current_brightness :: int
  frame_data :: "u8 list"

text \<open>
  The static initialisers: \<^verbatim>\<open>current_brightness = 0\<close>, \<^verbatim>\<open>frame_data = {0}\<close>;
  the source address is whatever \<^verbatim>\<open>open_socket\<close> read from the interface.
\<close>

definition socket_init :: "64 word \<Rightarrow> socket_state" where
  "socket_init mac =
     \<lparr>src_mac = mac, current_brightness = 0, frame_data = replicate FRAME_DATA_LENGTH 0\<rparr>"

definition encode_mac :: "64 word \<Rightarrow> u8 list" where
  "encode_mac mac =
     [ucast (drop_bit 40 mac AND 0xFF), ucast (drop_bit 32 mac AND 0xFF),
      ucast (drop_bit 24 mac AND 0xFF), ucast (drop_bit 16 mac AND 0xFF),
      ucast (drop_bit 8 mac AND 0xFF), ucast (mac AND 0xFF)]"

record packet =
  ether_shost :: "u8 list"
  ether_dhost :: "u8 list"
  ether_type :: nat
  payload :: "u8 list"

text \<open>
  \<^verbatim>\<open>send_socket\<close>: the length is cut to what fits the send buffer, then that many
  bytes of the data follow the header. The result of \<^verbatim>\<open>sendto\<close> is only logged.
\<close>

definition send_socket :: "nat \<Rightarrow> u8 list \<Rightarrow> nat \<Rightarrow> socket_state \<Rightarrow> packet" where
  "send_socket ety data len sk =
     (let len' = (if len + ETHER_HEADER_SIZE > BUF_SIZ then BUF_SIZ - ETHER_HEADER_SIZE else len)
      in \<lparr>ether_shost = encode_mac (src_mac sk), ether_dhost = encode_mac DEST_MAC,
           ether_type = ety, payload = take len' data\<rparr>)"

definition set_brightness :: "int \<Rightarrow> socket_state \<Rightarrow> socket_state" where
  "set_brightness brightness sk =
     (let b = (if brightness < 0 \<or> brightness > 255
               then (let b1 = (if brightness < 0 then 0 else brightness)
                     in if b1 > 255 then 255 else b1)
               else brightness)
      in sk\<lparr>current_brightness := b\<rparr>)"

text \<open>
  \<^verbatim>\<open>send_frame\<close> stores the brightness (an \<^verbatim>\<open>int\<close>, converted to a byte) and the
  gamma flag into the commit template, which stays modified, and sends the template.
\<close>

definition send_frame :: "socket_state \<Rightarrow> packet \<times> socket_state" where
  "send_frame sk =
     (let b = (word_of_int (current_brightness sk) :: u8);
          fd = (frame_data sk)
                 [FRAME_BRIGHTNESS_OFFSET := b,
                  FRAME_GAMMA_FLAG_OFFSET := 5,
                  FRAME_BRIGHTNESS_R_OFFSET := b,
                  FRAME_BRIGHTNESS_G_OFFSET := b,
                  FRAME_BRIGHTNESS_B_OFFSET := b];
          sk' = sk\<lparr>frame_data := fd\<rparr>
      in (send_socket FRAME_ETHER_TYPE fd FRAME_DATA_LENGTH sk', sk'))"

definition send_row :: "u8 list \<Rightarrow> nat \<Rightarrow> socket_state \<Rightarrow> packet" where
  "send_row data len sk = send_socket ROW_ETHER_TYPE data len sk"

section \<open>Transport: the frame pump (sender.c)\<close>

definition BYTES_PER_PIXEL :: nat where "BYTES_PER_PIXEL = 4"
definition FPS :: nat where "FPS = 240"
definition ROW_HEADER_SIZE :: nat where "ROW_HEADER_SIZE = 7"
definition SIGN_WIDTH :: nat where "SIGN_WIDTH = 320"
definition SIGN_HEIGHT :: nat where "SIGN_HEIGHT = 64"

text \<open>
  Times of type \<^verbatim>\<open>double\<close> are modelled by exact reals; which packets are sent
  does not depend on the rounding of the clock arithmetic.
\<close>

definition FPS_SLEEP :: real where "FPS_SLEEP = 1 / real FPS"

record timespec =
  tv_sec :: int
  tv_nsec :: int

definition get_time_diff :: "timespec \<Rightarrow> timespec \<Rightarrow> real" where
  "get_time_diff started_at ended_at =
     (let seconds = tv_sec ended_at - tv_sec started_at;
          nanoseconds = tv_nsec ended_at - tv_nsec started_at
      in real_of_int seconds + real_of_int nanoseconds / 1000000000)"

subsection \<open>Replies of the broker\<close>

text \<open>
  A \<^verbatim>\<open>redisReply\<close> by its type tag. \<^verbatim>\<open>redisGetReply\<close> either fails
  (\<open>REDIS_ERR\<close>) or succeeds with a reply pointer, which may be null.
\<close>

datatype redisReply =
    REDIS_REPLY_STRING "u8 list"
  | REDIS_REPLY_ARRAY "redisReply list"
  | REDIS_REPLY_INTEGER int
  | REDIS_REPLY_NIL
  | REDIS_REPLY_STATUS "u8 list"
  | REDIS_REPLY_ERROR "u8 list"

datatype get_reply = REDIS_ERR | REDIS_OK "redisReply option"

text \<open>
  \<^verbatim>\<open>atoi\<close> of the C library on the bytes of a string: white space is skipped, one
  sign is read, then decimal digits up to the first other byte. The value is kept as a
  mathematical integer; the C standard leaves the result undefined where that value does
  not fit an \<^verbatim>\<open>int\<close>, which \<open>fits_int\<close> tells (a library that wraps such a value
  modulo \<open>2 ^ 32\<close> differs from this function there).
\<close>

definition is_space :: "u8 \<Rightarrow> bool" where
  "is_space c = (c = 0x20 \<or> (0x09 \<le> c \<and> c \<le> 0x0D))"

definition is_digit :: "u8 \<Rightarrow> bool" where
  "is_digit c = (0x30 \<le> c \<and> c \<le> 0x39)"

fun atoi_digits :: "int \<Rightarrow> u8 list \<Rightarrow> int" where
  "atoi_digits acc [] = acc"
| "atoi_digits acc (c # cs) =
     (if is_digit c then atoi_digits (acc * 10 + (uint c - 0x30)) cs else acc)"

definition atoi :: "u8 list \<Rightarrow> int" where
  "atoi str =
     (case dropWhile is_space str of
        [] \<Rightarrow> 0
      | c # cs \<Rightarrow>
          if c = 0x2D then - atoi_digits 0 cs
          else if c = 0x2B then atoi_digits 0 cs
          else atoi_digits 0 (c # cs))"

definition fits_int :: "int \<Rightarrow> bool" where
  "fits_int v = (- 2147483648 \<le> v \<and> v \<le> 2147483647)"

text \<open>The bytes of a string literal, for writing inputs down.\<close>

definition bytes :: "string \<Rightarrow> u8 list" where
  "bytes s = map (\<lambda>c. of_char c) s"

subsection \<open>Encoding one frame into row packets\<close>

text \<open>
  The state of the sender: the socket module, the reusable row buffer, the two time
  stamps, the send counter, and the number of clock readings taken so far. The clock is
  an input: the \<open>n\<close>-th call of \<^verbatim>\<open>clock_gettime\<close> returns \<open>clk n\<close>.
\<close>

record sender_state =
  sock :: socket_state
  row_buf :: "u8 list"
  start_time :: timespec
  send_started :: timespec
  sends :: nat
  ticks :: nat

text \<open>The seven header bytes written through \<^verbatim>\<open>fpga_row_header_t\<close>.\<close>

definition write_row_header :: "nat \<Rightarrow> u8 list \<Rightarrow> u8 list" where
  "write_row_header row buf =
     buf[0 := of_nat row,
         1 := 0,
         2 := 0,
         3 := of_nat (drop_bit 8 SIGN_WIDTH),
         4 := of_nat (SIGN_WIDTH AND 0xFF),
         5 := 0x08,
         6 := 0x88]"

text \<open>
  The inner loop: \<open>src\<close> is the offset of the source pointer in the frame and
  \<open>pixel_data\<close> the offset of the write pointer in the row buffer.
\<close>

function pixel_loop :: "nat \<Rightarrow> u8 list \<Rightarrow> nat \<Rightarrow> u8 list \<Rightarrow> nat \<Rightarrow> u8 list \<times> nat" where
  "pixel_loop col matrix src buf pixel_data =
     (if col < SIGN_WIDTH
      then pixel_loop (col + 1) matrix (src + BYTES_PER_PIXEL)
             (buf[pixel_data := matrix ! (src + 2),
                  pixel_data + 1 := matrix ! (src + 1),
                  pixel_data + 2 := matrix ! src])
             (pixel_data + 3)
      else (buf, src))"
  by pat_completeness auto
termination
  by (relation "measure (\<lambda>(col, matrix, src, buf, pixel_data). SIGN_WIDTH - col)") auto

declare pixel_loop.simps [simp del]

text \<open>The outer loop; the packets sent so far are collected in order.\<close>

function row_loop ::
  "nat \<Rightarrow> u8 list \<Rightarrow> nat \<Rightarrow> u8 list \<Rightarrow> nat \<Rightarrow> socket_state \<Rightarrow> packet list
     \<Rightarrow> u8 list \<times> packet list" where
  "row_loop row matrix src buf payload_len sk sent =
     (if row < SIGN_HEIGHT
      then (case pixel_loop 0 matrix src (write_row_header row buf) ROW_HEADER_SIZE of
              (buf', src') \<Rightarrow>
                row_loop (row + 1) matrix src' buf' payload_len sk
                  (sent @ [send_row buf' payload_len sk]))
      else (buf, sent))"
  by pat_completeness auto
termination
  by (relation "measure (\<lambda>(row, matrix, src, buf, payload_len, sk, sent). SIGN_HEIGHT - row)")
     auto

declare row_loop.simps [simp del]

text \<open>
  \<^verbatim>\<open>process_and_send_frame\<close>. The result is the return code, the packets sent and
  the new state. A first reply that is neither null nor nil is read as an array with a
  second element; where it has none the C code reads through a null pointer, which is
  the fault \<open>NullDeref\<close> here.
\<close>

datatype fault = NullDeref

text \<open>The \<^verbatim>\<open>str\<close> and \<^verbatim>\<open>len\<close> fields of a reply: empty where the type carries no string.\<close>

fun reply_str :: "redisReply \<Rightarrow> u8 list" where
  "reply_str (REDIS_REPLY_STRING str) = str"
| "reply_str (REDIS_REPLY_STATUS str) = str"
| "reply_str (REDIS_REPLY_ERROR str) = str"
| "reply_str (REDIS_REPLY_ARRAY es) = []"
| "reply_str (REDIS_REPLY_INTEGER i) = []"
| "reply_str REDIS_REPLY_NIL = []"

definition blpop_element :: "redisReply \<Rightarrow> fault + u8 list" where
  "blpop_element r =
     (case r of
        REDIS_REPLY_ARRAY (k # e # rest) \<Rightarrow> Inr (reply_str e)
      | _ \<Rightarrow> Inl NullDeref)"

definition apply_brightness :: "redisReply option \<Rightarrow> socket_state \<Rightarrow> socket_state" where
  "apply_brightness rr_brightness sk =
     (case rr_brightness of
        Some (REDIS_REPLY_STRING str) \<Rightarrow>
          (let brightness = atoi str
           in if brightness \<ge> 0 \<and> brightness \<le> 255 then set_brightness brightness sk else sk)
      | _ \<Rightarrow> sk)"

definition process_and_send_frame ::
  "get_reply \<Rightarrow> get_reply \<Rightarrow> nat \<Rightarrow> sender_state \<Rightarrow> fault + (int \<times> packet list \<times> sender_state)" where
  "process_and_send_frame reply1 reply2 payload_len s =
     (case (reply1, reply2) of
        (REDIS_OK rr_blpop, REDIS_OK rr_brightness) \<Rightarrow>
          (let s1 = s\<lparr>sock := apply_brightness rr_brightness (sock s)\<rparr>
           in case rr_blpop of
                None \<Rightarrow> Inr (-1, [], s1)
              | Some REDIS_REPLY_NIL \<Rightarrow> Inr (-1, [], s1)
              | Some r \<Rightarrow>
                  (case blpop_element r of
                     Inl f \<Rightarrow> Inl f
                   | Inr matrix_str \<Rightarrow>
                       if length matrix_str \<noteq> SIGN_WIDTH * SIGN_HEIGHT * BYTES_PER_PIXEL
                       then Inr (-1, [], s1)
                       else (case row_loop 0 matrix_str 0 (row_buf s1) payload_len (sock s1) [] of
                               (buf', sent) \<Rightarrow> Inr (0, sent, s1\<lparr>row_buf := buf'\<rparr>))))
      | _ \<Rightarrow> Inr (-1, [], s))"

subsection \<open>The main loop\<close>

text \<open>The row buffer that \<^verbatim>\<open>main\<close> allocates once and passes to every call.\<close>

definition payload_length :: nat where
  "payload_length = ROW_HEADER_SIZE + SIGN_WIDTH * 3"

text \<open>
  The wait for the deadline. Each turn reads the clock once; the sleep before the
  reading only lets time pass. A clock that never reaches the deadline keeps the loop
  running for ever, which is the value \<open>None\<close>. The result is the number of clock
  readings taken.
\<close>

partial_function (option) wait_loop ::
  "(nat \<Rightarrow> timespec) \<Rightarrow> timespec \<Rightarrow> nat \<Rightarrow> real \<Rightarrow> nat option" where
  "wait_loop clk started tick elapsed_time_s =
     (if elapsed_time_s < FPS_SLEEP
      then wait_loop clk started (Suc tick) (get_time_diff started (clk tick))
      else Some tick)"

text \<open>
  One turn of \<^verbatim>\<open>while (running)\<close>: a call that does not return 0 sends nothing more
  (the loop backs off and continues, or breaks); otherwise the deadline is awaited, the
  new frame boundary is recorded and the commit packet is sent. Every 240 sends the
  rate is printed and the counter and its time stamp start again.
\<close>

definition main_iteration ::
  "(nat \<Rightarrow> timespec) \<Rightarrow> get_reply \<Rightarrow> get_reply \<Rightarrow> sender_state
     \<Rightarrow> (fault + packet list \<times> sender_state) option" where
  "main_iteration clk reply1 reply2 s =
     (case process_and_send_frame reply1 reply2 payload_length s of
        Inl f \<Rightarrow> Some (Inl f)
      | Inr (rc, rows, s1) \<Rightarrow>
          if rc \<noteq> 0 then Some (Inr (rows, s1))
          else
            (case wait_loop clk (send_started s1) (Suc (ticks s1))
                    (get_time_diff (send_started s1) (clk (ticks s1))) of
               None \<Rightarrow> None
             | Some t \<Rightarrow>
                 (let s2 = s1\<lparr>send_started := clk t, ticks := Suc t\<rparr>;
                      (commit, sk') = send_frame (sock s2);
                      s3 = s2\<lparr>sock := sk', sends := sends s2 + 1\<rparr>;
                      s4 = (if sends s3 mod FPS = 0
                            then s3\<lparr>start_time := clk (Suc (ticks s3)), sends := 0,
                                    ticks := ticks s3 + 2\<rparr>
                            else s3)
                  in Some (Inr (rows @ [commit], s4)))))"

text \<open>
  The state in which \<^verbatim>\<open>main\<close> enters its loop: the socket module as initialised, the
  row buffer as allocated (its contents are whatever the allocator left), and the two
  time stamps taken from the first two clock readings.
\<close>

definition sender_init :: "(nat \<Rightarrow> timespec) \<Rightarrow> 64 word \<Rightarrow> u8 list \<Rightarrow> sender_state" where
  "sender_init clk mac buf =
     \<lparr>sock = socket_init mac, row_buf = buf, start_time = clk 0, send_started = clk 1,
      sends = 0, ticks = 2\<rparr>"

text \<open>
  The calls that socket.h exports, and the state of the module after a sequence of them.
\<close>

datatype socket_call = Set_brightness int | Send_frame | Send_row "u8 list" nat

fun socket_calls :: "socket_call list \<Rightarrow> socket_state \<Rightarrow> socket_state" where
  "socket_calls [] sk = sk"
| "socket_calls (Set_brightness b # cs) sk = socket_calls cs (set_brightness b sk)"
| "socket_calls (Send_frame # cs) sk = socket_calls cs (snd (send_frame sk))"
| "socket_calls (Send_row data len # cs) sk = socket_calls cs sk"

section \<open>Ambient controller (sense.ts)\<close>

text \<open>
  Numbers of type \<^verbatim>\<open>number\<close> are modelled by exact reals, and by integers where the
  code has rounded them. \<^verbatim>\<open>Math.round\<close> rounds half up.
\<close>

definition js_round :: "real \<Rightarrow> int" where
  "js_round x = \<lfloor>x + 1 / 2\<rfloor>"

definition LUX_MAX :: real where "LUX_MAX = 400"
definition BRIGHTNESS_MIN :: int where "BRIGHTNESS_MIN = 1"
definition BRIGHTNESS_MAX :: int where "BRIGHTNESS_MAX = 100"
definition BRIGHTNESS_INC_MAX :: int where "BRIGHTNESS_INC_MAX = 5"
definition GAMMA :: real where "GAMMA = 0.6"
definition WINDOW_SIZE :: nat where "WINDOW_SIZE = 10"

record sense_state =
  sensorReadings :: "int list"
  currentBrightness :: int

definition sense_init :: sense_state where
  "sense_init = \<lparr>sensorReadings = [], currentBrightness = 1\<rparr>"

text \<open>
  The lux value is what \<^verbatim>\<open>readLux\<close> returned: the floor of a 16-bit count divided by
  1.2, a natural number.
\<close>

definition luxToBrightness :: "nat \<Rightarrow> sense_state \<Rightarrow> int \<times> sense_state" where
  "luxToBrightness lux st =
     (let normalized = min (real lux / LUX_MAX) 1;
          mapped = normalized powr GAMMA * real_of_int (BRIGHTNESS_MAX - BRIGHTNESS_MIN)
                     + real_of_int BRIGHTNESS_MIN;
          reading = js_round mapped;
          pushed = sensorReadings st @ [reading];
          window = (if length pushed > WINDOW_SIZE then tl pushed else pushed);
          average = real_of_int (sum_list window) / real (length window)
      in (js_round average, st\<lparr>sensorReadings := window\<rparr>))"

text \<open>
  \<^verbatim>\<open>updateBrightness\<close> after the sensor has been read: the result is the value handed
  to \<^verbatim>\<open>redis.publish\<close> and \<^verbatim>\<open>redis.set\<close>, or \<open>None\<close> when the cycle returns
  without publishing.
\<close>

definition updateBrightness :: "nat \<Rightarrow> sense_state \<Rightarrow> int option \<times> sense_state" where
  "updateBrightness lux st =
     (case luxToBrightness lux st of
        (target, st1) \<Rightarrow>
          (let diff = target - currentBrightness st1
           in if diff = 0 then (None, st1)
              else
                (let inc = sgn diff * min \<bar>diff\<bar> BRIGHTNESS_INC_MAX;
                     brightness =
                       max (min (currentBrightness st1 + inc) BRIGHTNESS_MAX) BRIGHTNESS_MIN
                 in (Some brightness, st1\<lparr>currentBrightness := brightness\<rparr>))))"

text \<open>
  The main loop over the sensor readings of successive cycles; \<open>None\<close> is a cycle in
  which reading the sensor failed, which is caught and changes nothing. The result is
  the sequence of published values.
\<close>

fun sense_loop :: "nat option list \<Rightarrow> sense_state \<Rightarrow> int list \<times> sense_state" where
  "sense_loop [] st = ([], st)"
| "sense_loop (None # rs) st = sense_loop rs st"
| "sense_loop (Some lux # rs) st =
     (case updateBrightness lux st of
        (None, st1) \<Rightarrow> sense_loop rs st1
      | (Some b, st1) \<Rightarrow> (case sense_loop rs st1 of (bs, st2) \<Rightarrow> (b # bs, st2)))"

section \<open>Renderer (player.ts)\<close>

text \<open>The three scripts each define \<^verbatim>\<open>FPS = 240\<close>; the constant above serves all.\<close>

definition BRIGHTNESS_SCALING_FACTOR :: real where "BRIGHTNESS_SCALING_FACTOR = 0.7"
definition DARK_BOOST :: real where "DARK_BOOST = 0.1"

subsection \<open>Strings of the host language\<close>

text \<open>
  Strings are lists of characters, taken as ASCII. \<^verbatim>\<open>parseInt(s, 16)\<close> skips white
  space, reads a sign and a \<^verbatim>\<open>0x\<close> prefix, then the longest run of hexadecimal
  digits; without a digit the result is \<^verbatim>\<open>NaN\<close>, which is \<open>None\<close> here.
  \<^verbatim>\<open>toString(16)\<close> of an integer writes lower-case digits, with a minus sign for a
  negative one, and \<^verbatim>\<open>padStart(2, "0")\<close> fills a shorter string with zeros on the
  left.
\<close>

definition substring :: "string \<Rightarrow> nat \<Rightarrow> nat \<Rightarrow> string" where
  "substring s a b = take (b - a) (drop a s)"

definition js_space :: "char \<Rightarrow> bool" where
  "js_space c = (let n = (of_char c :: nat) in n = 32 \<or> (9 \<le> n \<and> n \<le> 13))"

definition hex_digit_val :: "char \<Rightarrow> int option" where
  "hex_digit_val c =
     (let n = (of_char c :: nat) in
      if 48 \<le> n \<and> n \<le> 57 then Some (int n - 48)
      else if 97 \<le> n \<and> n \<le> 102 then Some (int n - 87)
      else if 65 \<le> n \<and> n \<le> 70 then Some (int n - 55)
      else None)"

fun hex_prefix_val :: "int \<Rightarrow> string \<Rightarrow> int" where
  "hex_prefix_val acc [] = acc"
| "hex_prefix_val acc (c # cs) =
     (case hex_digit_val c of None \<Rightarrow> acc | Some d \<Rightarrow> hex_prefix_val (16 * acc + d) cs)"

definition strip_0x :: "string \<Rightarrow> string" where
  "strip_0x s =
     (case s of
        c # x # rest \<Rightarrow> if c = CHR ''0'' \<and> (x = CHR ''x'' \<or> x = CHR ''X'') then rest else s
      | _ \<Rightarrow> s)"

definition parseInt16 :: "string \<Rightarrow> int option" where
  "parseInt16 s =
     (let s1 = dropWhile js_space s;
          neg = (case s1 of c # rest \<Rightarrow> c = CHR ''-'' | [] \<Rightarrow> False);
          s2 = (case s1 of c # rest \<Rightarrow> if c = CHR ''-'' \<or> c = CHR ''+'' then rest else s1
                 | [] \<Rightarrow> s1);
          s3 = strip_0x s2
      in case s3 of
           [] \<Rightarrow> None
         | c # rest \<Rightarrow>
             (case hex_digit_val c of
                None \<Rightarrow> None
              | Some d \<Rightarrow> Some ((if neg then -1 else 1) * hex_prefix_val 0 s3)))"

definition hex_char :: "nat \<Rightarrow> char" where
  "hex_char d = ''0123456789abcdef'' ! d"

function to_hex :: "nat \<Rightarrow> string" where
  "to_hex n = (if n < 16 then [hex_char n] else to_hex (n div 16) @ [hex_char (n mod 16)])"
  by pat_completeness auto
termination
  by (relation "measure id") auto

declare to_hex.simps [simp del]

definition toString16 :: "int option \<Rightarrow> string" where
  "toString16 v =
     (case v of
        None \<Rightarrow> ''NaN''
      | Some n \<Rightarrow> if n < 0 then CHR ''-'' # to_hex (nat (- n)) else to_hex (nat n))"

definition padStart2 :: "string \<Rightarrow> string" where
  "padStart2 s = replicate (2 - length s) (CHR ''0'') @ s"

text \<open>
  \<^verbatim>\<open>adjustColorForBrightness\<close>. The brightness is a real; the three parsed channels
  are integers or \<^verbatim>\<open>NaN\<close>. An average that is \<^verbatim>\<open>NaN\<close> is not below 100, so
  it gives no dark boost; a channel that is \<^verbatim>\<open>NaN\<close> stays so and is written as
  \<^verbatim>\<open>NaN\<close>. The scale and the product are exact here. Where the exact product
  lies on a half, as 25 * 0.9 does for \<^verbatim>\<open>#191919\<close> at brightness 75, the product in
  double precision can fall just below it and round to the integer below; the order of
  the results in the brightness is the same in both, since every operation of the
  formula is monotone in double precision too.
\<close>

definition scaled_channel :: "real \<Rightarrow> int option \<Rightarrow> int option" where
  "scaled_channel adjustedScale ch =
     (case ch of None \<Rightarrow> None
      | Some v \<Rightarrow> Some (min 255 (js_round (real_of_int v * adjustedScale))))"

definition hex_channels :: "string \<Rightarrow> int option \<times> int option \<times> int option" where
  "hex_channels hexColor =
     (let hex = remove1 (CHR ''#'') hexColor
      in (parseInt16 (substring hex 0 2), parseInt16 (substring hex 2 4),
          parseInt16 (substring hex 4 6)))"

definition adjustColorForBrightness :: "string \<Rightarrow> real \<Rightarrow> string" where
  "adjustColorForBrightness hexColor brightness =
     (if brightness = 100 \<or> BRIGHTNESS_SCALING_FACTOR = 0 then hexColor
      else
        (case hex_channels hexColor of
           (r, g, b) \<Rightarrow>
             (let scale = 1 - BRIGHTNESS_SCALING_FACTOR * (1 - brightness / 100);
                  avgBrightness =
                    (case (r, g, b) of
                       (Some r', Some g', Some b') \<Rightarrow> Some (real_of_int (r' + g' + b') / 3)
                     | _ \<Rightarrow> None);
                  darkBoost =
                    (case avgBrightness of
                       Some a \<Rightarrow> if a < 100 then (1 - a / 100) * DARK_BOOST else 0
                     | None \<Rightarrow> 0);
                  adjustedScale = scale + darkBoost;
                  newR = scaled_channel adjustedScale r;
                  newG = scaled_channel adjustedScale g;
                  newB = scaled_channel adjustedScale b
              in CHR ''#'' # padStart2 (toString16 newR) @ padStart2 (toString16 newG)
                   @ padStart2 (toString16 newB))))"

subsection \<open>Animations and their drawing\<close>

text \<open>
  An animation holds its tweened target and its static props, both as lists of
  attribute and value, and the flag that the timeline's callbacks set and clear. An
  attribute is looked up in the target first, then in the props; \<open>None\<close> is
  \<^verbatim>\<open>undefined\<close>.
\<close>

datatype AnimationValue = Str string | Num real

datatype animation_class = RectangleAnimation | TextAnimation

record animation =
  cls :: animation_class
  target :: "(string \<times> AnimationValue) list"
  props :: "(string \<times> AnimationValue) list"
  layer :: int
  name :: string
  animating :: bool

definition get :: "animation \<Rightarrow> string \<Rightarrow> AnimationValue option" where
  "get a attr = (case map_of (target a) attr of Some v \<Rightarrow> Some v | None \<Rightarrow> map_of (props a) attr)"

text \<open>
  The canvas and its context belong to the rasterizer. The model keeps what the player
  does to them: the sequence of calls and assignments, in order. The three parts of the
  font string are kept apart.
\<close>

datatype context_call =
    Clear
  | Save
  | Restore
  | Set_globalAlpha "AnimationValue option"
  | Set_fillStyle "AnimationValue option"
  | Set_font "AnimationValue option" "AnimationValue option" "AnimationValue option"
  | Set_textAlign "AnimationValue option"
  | Set_textBaseline "AnimationValue option"
  | FillRect "AnimationValue option" "AnimationValue option" "AnimationValue option"
      "AnimationValue option"
  | FillText "AnimationValue option" "AnimationValue option" "AnimationValue option"

text \<open>
  The fill style: a string is adjusted; anything else is handed back unchanged at full
  brightness, and otherwise has no \<^verbatim>\<open>replace\<close> method, which raises a type error.
  A draw routine that raises has set the alpha before.
\<close>

datatype js_error = TypeError

definition adjusted_fill :: "AnimationValue option \<Rightarrow> real \<Rightarrow> js_error + AnimationValue option" where
  "adjusted_fill fill brightness =
     (case fill of
        Some (Str hexColor) \<Rightarrow> Inr (Some (Str (adjustColorForBrightness hexColor brightness)))
      | _ \<Rightarrow> if brightness = 100 \<or> BRIGHTNESS_SCALING_FACTOR = 0 then Inr fill else Inl TypeError)"

definition truthy :: "AnimationValue option \<Rightarrow> bool" where
  "truthy v = (case v of None \<Rightarrow> False | Some (Str s) \<Rightarrow> s \<noteq> [] | Some (Num x) \<Rightarrow> x \<noteq> 0)"

definition draw :: "animation \<Rightarrow> real \<Rightarrow> context_call list \<times> js_error option" where
  "draw a brightness =
     (case cls a of
        RectangleAnimation \<Rightarrow>
          (case adjusted_fill (get a ''fill'') brightness of
             Inl e \<Rightarrow> ([Set_globalAlpha (get a ''alpha'')], Some e)
           | Inr style \<Rightarrow>
               ([Set_globalAlpha (get a ''alpha''), Set_fillStyle style,
                 FillRect (get a ''x'') (get a ''y'') (get a ''width'') (get a ''height'')], None))
      | TextAnimation \<Rightarrow>
          (let text = (if truthy (get a ''textPlain'') then get a ''textPlain'' else get a ''text'')
           in case adjusted_fill (get a ''fill'') brightness of
                Inl e \<Rightarrow> ([Set_globalAlpha (get a ''alpha'')], Some e)
              | Inr style \<Rightarrow>
                  ([Set_globalAlpha (get a ''alpha''), Set_fillStyle style,
                    Set_font (get a ''fontWeight'') (get a ''fontSize'') (get a ''font''),
                    Set_textAlign (get a ''textAlign''), Set_textBaseline (get a ''textBaseline''),
                    FillText text (get a ''x'') (get a ''y'')], None)))"

subsection \<open>The player\<close>

text \<open>
  Of the built movie only the sign is read by the functions below. The timeline is the
  tween engine's; its state has the type \<open>'tl\<close>, and what \<^verbatim>\<open>seek\<close> does to it and
  to the animations (their targets and flags) is a parameter of the player.
\<close>

record sign =
  width :: int
  height :: int
  theme :: string
  fps :: "int option"

record built_movie =
  msign :: sign

record 'tl player =
  calls :: "context_call list"
  animations :: "animation list"
  movie :: "built_movie option"
  timeline :: "'tl option"
  frames :: int
  frame :: int
  duration :: real
  cycles :: int
  brightness :: real

definition new_player :: "context_call list \<Rightarrow> 'tl player" where
  "new_player canvas =
     \<lparr>calls = canvas, animations = [], movie = None, timeline = None, frames = 0, frame = 0,
      duration = 0, cycles = 0, brightness = 100\<rparr>"

text \<open>
  The \<^verbatim>\<open>forEach\<close> over the animations: every animating one is drawn between a save
  and a restore and makes the frame active. An error leaves at once.
\<close>

fun draw_each ::
  "animation list \<Rightarrow> real \<Rightarrow> bool \<Rightarrow> context_call list \<Rightarrow> bool \<times> context_call list \<times> js_error option" where
  "draw_each [] b hasActiveAnimation cs = (hasActiveAnimation, cs, None)"
| "draw_each (a # as) b hasActiveAnimation cs =
     (if animating a
      then (case draw a b of
              (dc, Some e) \<Rightarrow> (True, cs @ Save # dc, Some e)
            | (dc, None) \<Rightarrow> draw_each as b True (cs @ Save # dc @ [Restore]))
      else draw_each as b hasActiveAnimation cs)"

type_synonym 'tl seek = "'tl \<Rightarrow> real \<Rightarrow> animation list \<Rightarrow> 'tl \<times> animation list"

text \<open>
  The first half of a turn of the loop in \<^verbatim>\<open>play\<close>: seek, clear the canvas, draw.
\<close>

definition render :: "'tl seek \<Rightarrow> 'tl player \<Rightarrow> bool \<times> js_error option \<times> 'tl player" where
  "render seek p =
     (case timeline p of
        None \<Rightarrow> (False, Some TypeError, p)
      | Some tln \<Rightarrow>
          (let progress = real_of_int (frame p)
                            / (if frames p - 1 = 0 then 1 else real_of_int (frames p - 1));
               (tln', anims) = seek tln (duration p * progress) (animations p);
               (has, cs, err) = draw_each anims (brightness p) False (calls p @ [Clear])
           in (has, err, p\<lparr>timeline := Some tln', animations := anims, calls := cs\<rparr>)))"

text \<open>
  The loop of \<^verbatim>\<open>play\<close>, with the two local variables as arguments. The result is
  how the call ends, the number of turns of the loop that were begun (the final value of
  \<^verbatim>\<open>skippedFrames\<close>, counting a turn that raised), and the state of the player.
\<close>

datatype play_return = Returns_true | Returns_undefined | Throws js_error

function play_loop ::
  "'tl seek \<Rightarrow> bool \<Rightarrow> int \<Rightarrow> 'tl player \<Rightarrow> play_return \<times> int \<times> 'tl player" where
  "play_loop seek hasActiveAnimation skippedFrames p =
     (if \<not> hasActiveAnimation
      then (case render seek p of
              (has, Some e, p1) \<Rightarrow> (Throws e, skippedFrames + 1, p1)
            | (has, None, p1) \<Rightarrow>
                (let skippedFrames' = skippedFrames + 1;
                     has' = (has \<or> skippedFrames' \<ge> frames p1);
                     p2 = p1\<lparr>frame := frame p1 + 1\<rparr>
                 in if frame p2 \<ge> frames p2
                    then (Returns_true, skippedFrames', p2\<lparr>frame := 0, cycles := cycles p2 + 1\<rparr>)
                    else play_loop seek has' skippedFrames' p2))
      else (Returns_undefined, skippedFrames, p))"
  by pat_completeness auto

termination
proof (relation "measure (\<lambda>(seek, has, skipped, p). if has then 0 else 1 + nat (frames p - skipped))")
  show "wf (measure (\<lambda>(seek, has, skipped, p). if has then 0 else 1 + nat (frames p - skipped)))"
    by simp
next
  fix seek :: "'tl seek" and hasActiveAnimation :: bool and skippedFrames :: int
    and p :: "'tl player" and x y x2 ya x2a xa xb xc
  assume a: "\<not> hasActiveAnimation" "(x, y) = render seek p" "(x2, ya) = y" "x2 = None"
    "xa = skippedFrames + 1" "xb = (x \<or> frames ya \<le> xa)" "xc = ya\<lparr>frame := frame ya + 1\<rparr>"
    "\<not> frames xc \<le> frame xc"
  have "frames ya = frames p"
    using a(2,3) by (auto simp: render_def Let_def split: option.splits prod.splits)
  then show "((seek, xb, xa, xc), seek, hasActiveAnimation, skippedFrames, p)
       \<in> measure (\<lambda>(seek, has, skipped, p). if has then 0 else 1 + nat (frames p - skipped))"
    using a by auto
qed

declare play_loop.simps [simp del]

definition play :: "'tl seek \<Rightarrow> 'tl player \<Rightarrow> play_return \<times> int \<times> 'tl player" where
  "play seek p =
     (case movie p of
        None \<Rightarrow> (Returns_undefined, 0, p)
      | Some m \<Rightarrow> play_loop seek False 0 p)"

section \<open>Orchestrator (direct.ts)\<close>

text \<open>
  The handler of the subscriber. The conversion \<^verbatim>\<open>Number\<close> of the host language is
  a parameter.
\<close>

definition BRIGHTNESS_CHANNEL :: string where
  "BRIGHTNESS_CHANNEL = ''player:brightness:channel''"

definition subscriber_on_message ::
  "(string \<Rightarrow> real) \<Rightarrow> string \<Rightarrow> string \<Rightarrow> 'tl player \<Rightarrow> 'tl player" where
  "subscriber_on_message Number channel message p =
     (if channel = BRIGHTNESS_CHANNEL then p\<lparr>brightness := Number message\<rparr> else p)"

text \<open>
  One turn of the main loop needs from its surroundings: the messages delivered to the
  subscriber since the last turn, how many frames the transport has popped from the left
  of the queue before the push and during the wait, and whether each command to the
  broker succeeds (a failed command raises, which the loop catches).
\<close>

record broker_step =
  messages :: "(string \<times> string) list"
  popped_before :: nat
  rpush_ok :: bool
  popped_during_wait :: nat
  llen_ok :: bool
  del_ok :: bool

text \<open>\<^verbatim>\<open>player.movie!.sign.fps ?? FPS\<close>\<close>

definition director_fps :: "built_movie \<Rightarrow> int" where
  "director_fps m = (case fps (msign m) of None \<Rightarrow> int FPS | Some f \<Rightarrow> f)"

text \<open>
  One turn of the main loop on the player and the queue. The result carries the lengths
  of the queue after each command of the turn, as an observer of the broker sees them.
  The frame pushed is what \<^verbatim>\<open>getImageData\<close> reads from the canvas, a function of the
  calls made on it.
\<close>

definition director_iteration ::
  "'tl seek \<Rightarrow> (string \<Rightarrow> real) \<Rightarrow> (context_call list \<Rightarrow> 'f) \<Rightarrow> broker_step
     \<Rightarrow> 'tl player \<times> 'f list \<Rightarrow> ('tl player \<times> 'f list) \<times> nat list" where
  "director_iteration seek Number getImageData env st =
     (case st of (p, q) \<Rightarrow>
        (let p0 = fold (\<lambda>(channel, message). subscriber_on_message Number channel message)
                    (messages env) p;
             q0 = drop (popped_before env) q
         in case play seek p0 of
              (Throws e, n, p1) \<Rightarrow> ((p1, q0), [length q0])
            | (r, n, p1) \<Rightarrow>
                (case movie p1 of
                   None \<Rightarrow> ((p1, q0), [length q0])
                 | Some m \<Rightarrow>
                     if \<not> rpush_ok env then ((p1, q0), [length q0])
                     else
                       (let q1 = q0 @ [getImageData (calls p1)];
                            pushed = int (length q1)
                        in if pushed = director_fps m
                           then (let q2 = drop (popped_during_wait env) q1
                                 in if \<not> llen_ok env then ((p1, q2), [length q1, length q2])
                                    else if int (length q2) = director_fps m
                                    then (if del_ok env
                                          then ((p1, []), [length q1, length q2, 0])
                                          else ((p1, q2), [length q1, length q2]))
                                    else ((p1, q2), [length q1, length q2]))
                           else ((p1, q1), [length q1])))))"


section \<open>Notions used in the statements\<close>

subsection \<open>The image of a row on the wire\<close>

text \<open>
  The pixel bytes of row \<open>r\<close> of a frame in the order red, green, blue, and the whole
  payload of the row packet: the seven header bytes, then the pixel bytes.
\<close>

definition row_rgb :: "u8 list \<Rightarrow> nat \<Rightarrow> u8 list" where
  "row_rgb m r =
     concat (map (\<lambda>c. [m ! (4 * (SIGN_WIDTH * r + c) + 2), m ! (4 * (SIGN_WIDTH * r + c) + 1),
                         m ! (4 * (SIGN_WIDTH * r + c))]) [0..<SIGN_WIDTH])"

definition row_image :: "u8 list \<Rightarrow> nat \<Rightarrow> u8 list" where
  "row_image m r = [of_nat r, 0, 0, 0x01, 0x40, 0x08, 0x88] @ row_rgb m r"

definition row_packets :: "u8 list \<Rightarrow> socket_state \<Rightarrow> packet list" where
  "row_packets m sk = map (\<lambda>r. send_row (row_image m r) payload_length sk) [0..<SIGN_HEIGHT]"

text \<open>
  The invariant of the socket module: the commit template has its length, is zero
  outside the five offsets that \<^verbatim>\<open>send_frame\<close> writes, and the brightness is a byte.
\<close>

definition template_ok :: "socket_state \<Rightarrow> bool" where
  "template_ok sk \<longleftrightarrow>
     length (frame_data sk) = FRAME_DATA_LENGTH \<and>
     0 \<le> current_brightness sk \<and> current_brightness sk \<le> 255 \<and>
     (\<forall>i < FRAME_DATA_LENGTH. i \<notin> {21, 22, 24, 25, 26} \<longrightarrow> frame_data sk ! i = 0)"

subsection \<open>Published brightness sequences\<close>

text \<open>
  A sequence of published values that starts after the value \<open>prev\<close>: every value lies
  in the range 1 to 100 and differs from the one before it by at most 5.
\<close>

fun rate_limited :: "int \<Rightarrow> int list \<Rightarrow> bool" where
  "rate_limited prev [] = True"
| "rate_limited prev (b # bs) = (\<bar>b - prev\<bar> \<le> 5 \<and> 1 \<le> b \<and> b \<le> 100 \<and> rate_limited b bs)"

subsection \<open>Colours\<close>

text \<open>
  A hex colour is \<^verbatim>\<open>#\<close> followed by six hexadecimal digits. Channels are compared
  as numbers; a channel that is not a number compares with nothing.
\<close>

definition is_hex_digit :: "char \<Rightarrow> bool" where
  "is_hex_digit c = (hex_digit_val c \<noteq> None)"

definition is_hex_color :: "string \<Rightarrow> bool" where
  "is_hex_color s =
     (case s of [] \<Rightarrow> False
      | c # ds \<Rightarrow> c = CHR ''#'' \<and> length ds = 6 \<and> list_all is_hex_digit ds)"

definition channel_le :: "int option \<Rightarrow> int option \<Rightarrow> bool" where
  "channel_le x y = (case (x, y) of (Some a, Some b) \<Rightarrow> a \<le> b | _ \<Rightarrow> False)"

fun channels_le ::
  "int option \<times> int option \<times> int option \<Rightarrow> int option \<times> int option \<times> int option \<Rightarrow> bool" where
  "channels_le (r, g, b) (r', g', b') = (channel_le r r' \<and> channel_le g g' \<and> channel_le b b')"

text \<open>The factor that the compensation applies to the channels \<open>r\<close>, \<open>g\<close>, \<open>b\<close>.\<close>

definition adjusted_scale :: "int \<Rightarrow> int \<Rightarrow> int \<Rightarrow> real \<Rightarrow> real" where
  "adjusted_scale r g b x =
     1 - BRIGHTNESS_SCALING_FACTOR * (1 - x / 100)
       + (if real_of_int (r + g + b) / 3 < 100
          then (1 - real_of_int (r + g + b) / 3 / 100) * DARK_BOOST else 0)"

subsection \<open>Concrete inputs\<close>

text \<open>A clock that advances one second per reading.\<close>

definition second_clock :: "nat \<Rightarrow> timespec" where
  "second_clock n = \<lparr>tv_sec = int n, tv_nsec = 0\<rparr>"

definition fresh_sender :: sender_state where
  "fresh_sender = sender_init second_clock 0 (replicate payload_length 0)"

text \<open>A frame of the right size, and the reply of the queue that carries it.\<close>

definition grey_frame :: "u8 list" where
  "grey_frame = replicate (SIGN_WIDTH * SIGN_HEIGHT * BYTES_PER_PIXEL) 0x7F"

definition frame_reply :: "u8 list \<Rightarrow> get_reply" where
  "frame_reply m =
     REDIS_OK (Some (REDIS_REPLY_ARRAY
       [REDIS_REPLY_STRING (bytes ''player:frames''), REDIS_REPLY_STRING m]))"

text \<open>
  A timeline on which nothing moves, the movie with an empty screenplay once loaded
  (no animations, duration 0, 0 frames), and the same player with three frames.
\<close>

definition still_seek :: "unit seek" where
  "still_seek tln t as = (tln, as)"

definition empty_movie :: built_movie where
  "empty_movie = \<lparr>msign = \<lparr>width = 320, height = 64, theme = ''dark'', fps = None\<rparr>\<rparr>"

definition empty_loaded :: "unit player" where
  "empty_loaded = (new_player [])\<lparr>movie := Some empty_movie, timeline := Some ()\<rparr>"

definition three_frames :: "unit player" where
  "three_frames = empty_loaded\<lparr>frames := 3\<rparr>"

text \<open>
  The conversion \<^verbatim>\<open>Number\<close> on a string of decimal digits, as the ambient controller
  publishes them.
\<close>

definition decimal_number :: "string \<Rightarrow> real" where
  "decimal_number s = real (foldl (\<lambda>a c. 10 * a + (of_char c - 48)) 0 s)"






section \<open>Transport: what one frame puts on the wire\<close>

subsection \<open>The inner loop\<close>

lemma pixel_loop_length: "length (fst (pixel_loop col m src buf pd)) = length buf"
proof (induction col m src buf pd rule: pixel_loop.induct)
  case (1 col m src buf pd)
  show ?case
  proof (cases "col < SIGN_WIDTH")
    case True
    then show ?thesis using 1 by (subst pixel_loop.simps) simp
  next
    case False
    then show ?thesis by (subst pixel_loop.simps) simp
  qed
qed

lemma pixel_loop_src:
  "col \<le> SIGN_WIDTH \<Longrightarrow>
   snd (pixel_loop col m src buf pd) = src + BYTES_PER_PIXEL * (SIGN_WIDTH - col)"
proof (induction col m src buf pd rule: pixel_loop.induct)
  case (1 col m src buf pd)
  show ?case
  proof (cases "col < SIGN_WIDTH")
    case True
    then have "snd (pixel_loop (col + 1) m (src + BYTES_PER_PIXEL)
             (buf[pd := m ! (src + 2), pd + 1 := m ! (src + 1), pd + 2 := m ! src]) (pd + 3))
       = src + BYTES_PER_PIXEL + BYTES_PER_PIXEL * (SIGN_WIDTH - (col + 1))"
      using 1 by simp
    moreover have "BYTES_PER_PIXEL + BYTES_PER_PIXEL * (SIGN_WIDTH - (col + 1))
                     = BYTES_PER_PIXEL * (SIGN_WIDTH - col)"
      using True by (metis Suc_diff_Suc Suc_eq_plus1 mult_Suc_right)
    ultimately show ?thesis using True by (subst pixel_loop.simps) simp
  next
    case False
    then show ?thesis using 1 by (subst pixel_loop.simps) simp
  qed
qed

lemma pixel_loop_before:
  "j < pd \<Longrightarrow> fst (pixel_loop col m src buf pd) ! j = buf ! j"
proof (induction col m src buf pd rule: pixel_loop.induct)
  case (1 col m src buf pd)
  show ?case
  proof (cases "col < SIGN_WIDTH")
    case True
    then show ?thesis using 1 by (subst pixel_loop.simps) simp
  next
    case False
    then show ?thesis by (subst pixel_loop.simps) simp
  qed
qed

lemma pixel_loop_pixel:
  "col \<le> c \<Longrightarrow> c < SIGN_WIDTH \<Longrightarrow> pd + 3 * (SIGN_WIDTH - col) \<le> length buf \<Longrightarrow>
   fst (pixel_loop col m src buf pd) ! (pd + 3 * (c - col)) = m ! (src + 4 * (c - col) + 2) \<and>
   fst (pixel_loop col m src buf pd) ! (pd + 3 * (c - col) + 1) = m ! (src + 4 * (c - col) + 1) \<and>
   fst (pixel_loop col m src buf pd) ! (pd + 3 * (c - col) + 2) = m ! (src + 4 * (c - col))"
proof (induction col m src buf pd rule: pixel_loop.induct)
  case (1 col m src buf pd)
  let ?buf' = "buf[pd := m ! (src + 2), pd + 1 := m ! (src + 1), pd + 2 := m ! src]"
  have lt: "col < SIGN_WIDTH" using 1 by simp
  have unf: "pixel_loop col m src buf pd
               = pixel_loop (col + 1) m (src + BYTES_PER_PIXEL) ?buf' (pd + 3)"
    using lt by (subst pixel_loop.simps) simp
  show ?case
  proof (cases "c = col")
    case True
    have len: "pd + 2 < length buf" using 1(4) lt by simp
    show ?thesis unfolding unf using True len
      by (simp add: pixel_loop_before)
  next
    case False
    then have c: "col + 1 \<le> c" using 1(2) by simp
    have len: "pd + 3 + 3 * (SIGN_WIDTH - (col + 1)) \<le> length ?buf'" using 1(4) lt by simp
    have e1: "pd + 3 + 3 * (c - (col + 1)) = pd + 3 * (c - col)" using c by simp
    have e2: "src + BYTES_PER_PIXEL + 4 * (c - (col + 1)) = src + 4 * (c - col)"
      using c by (simp add: BYTES_PER_PIXEL_def)
    from 1(1)[OF lt c 1(3) len] show ?thesis unfolding unf e1 e2 by (simp add: add.assoc)
  qed
qed

subsection \<open>One row\<close>

lemma length_triples: "length (concat (map (\<lambda>c. [f c, g c, h c]) [0..<n])) = 3 * n"
  by (induction n) auto

lemma nth_triples:
  "c < n \<Longrightarrow>
   concat (map (\<lambda>c. [f c, g c, h c]) [0..<n]) ! (3 * c) = f c \<and>
   concat (map (\<lambda>c. [f c, g c, h c]) [0..<n]) ! (3 * c + 1) = g c \<and>
   concat (map (\<lambda>c. [f c, g c, h c]) [0..<n]) ! (3 * c + 2) = h c"
proof (induction n)
  case 0
  then show ?case by simp
next
  case (Suc n)
  show ?case
  proof (cases "c < n")
    case True
    then show ?thesis using Suc.IH by (simp add: nth_append length_triples)
  next
    case False
    then have "c = n" using Suc.prems by simp
    then show ?thesis by (simp add: nth_append length_triples)
  qed
qed

lemma row_rgb_nth:
  assumes "c < SIGN_WIDTH"
  shows "row_rgb m r ! (3 * c) = m ! (4 * (SIGN_WIDTH * r + c) + 2) \<and>
         row_rgb m r ! (3 * c + 1) = m ! (4 * (SIGN_WIDTH * r + c) + 1) \<and>
         row_rgb m r ! (3 * c + 2) = m ! (4 * (SIGN_WIDTH * r + c))"
  unfolding row_rgb_def
  by (rule nth_triples[OF assms, of "\<lambda>c. m ! (4 * (SIGN_WIDTH * r + c) + 2)"
        "\<lambda>c. m ! (4 * (SIGN_WIDTH * r + c) + 1)" "\<lambda>c. m ! (4 * (SIGN_WIDTH * r + c))"])

lemma length_row_image: "length (row_image m r) = payload_length"
  by (simp add: row_image_def row_rgb_def length_triples payload_length_def ROW_HEADER_SIZE_def
        SIGN_WIDTH_def)

lemma row_image_pixel: "row_image m r ! (7 + i) = row_rgb m r ! i"
  by (simp add: row_image_def)

lemma write_row_header_nth:
  assumes "7 \<le> length buf" "j < 7"
  shows "write_row_header r buf ! j = [of_nat r, 0, 0, 0x01, 0x40, 0x08, 0x88] ! j"
proof -
  from assms(2) consider "j = 0" | "j = 1" | "j = 2" | "j = 3" | "j = 4" | "j = 5" | "j = 6"
    by linarith
  moreover have "0 < length buf" "1 < length buf" "2 < length buf" "3 < length buf"
    "4 < length buf" "5 < length buf" "6 < length buf" using assms(1) by auto
  ultimately show ?thesis
    by cases (simp_all add: write_row_header_def SIGN_WIDTH_def drop_bit_eq_div)
qed

lemma encode_row:
  assumes len: "length buf = payload_length"
  shows "fst (pixel_loop 0 m (4 * (SIGN_WIDTH * r)) (write_row_header r buf) ROW_HEADER_SIZE)
           = row_image m r"
proof (rule nth_equalityI)
  show "length (fst (pixel_loop 0 m (4 * (SIGN_WIDTH * r)) (write_row_header r buf)
                  ROW_HEADER_SIZE)) = length (row_image m r)"
    by (simp add: pixel_loop_length length_row_image len write_row_header_def)
next
  fix j
  assume "j < length (fst (pixel_loop 0 m (4 * (SIGN_WIDTH * r)) (write_row_header r buf)
                         ROW_HEADER_SIZE))"
  then have j: "j < payload_length" by (simp add: pixel_loop_length len write_row_header_def)
  let ?hb = "write_row_header r buf"
  have lhb: "length ?hb = payload_length" by (simp add: write_row_header_def len)
  show "fst (pixel_loop 0 m (4 * (SIGN_WIDTH * r)) ?hb ROW_HEADER_SIZE) ! j = row_image m r ! j"
  proof (cases "j < 7")
    case True
    have "fst (pixel_loop 0 m (4 * (SIGN_WIDTH * r)) ?hb ROW_HEADER_SIZE) ! j = ?hb ! j"
      using True by (simp add: pixel_loop_before ROW_HEADER_SIZE_def)
    also have "\<dots> = [of_nat r, 0, 0, 0x01, 0x40, 0x08, 0x88] ! j"
      using True len
      by (intro write_row_header_nth) (simp_all add: payload_length_def ROW_HEADER_SIZE_def)
    also have "\<dots> = row_image m r ! j"
    proof -
      from True consider "j = 0" | "j = 1" | "j = 2" | "j = 3" | "j = 4" | "j = 5" | "j = 6"
        by linarith
      then show ?thesis by cases (simp_all add: row_image_def)
    qed
    finally show ?thesis .
  next
    case False
    define c where "c = (j - 7) div 3"
    define k where "k = (j - 7) mod 3"
    have jeq: "j = 7 + 3 * c + k" using False by (simp add: c_def k_def)
    have k3: "k < 3" by (simp add: k_def)
    have cW: "c < SIGN_WIDTH"
      using j jeq by (simp add: payload_length_def ROW_HEADER_SIZE_def SIGN_WIDTH_def)
    have pre: "ROW_HEADER_SIZE + 3 * (SIGN_WIDTH - 0) \<le> length ?hb"
      by (simp add: lhb payload_length_def)
    have e4: "4 * (SIGN_WIDTH * r) + 4 * (c - 0) = 4 * (SIGN_WIDTH * r + c)" by simp
    have e3: "ROW_HEADER_SIZE + 3 * (c - 0) = 7 + 3 * c" by (simp add: ROW_HEADER_SIZE_def)
    note L = pixel_loop_pixel[of 0 c ROW_HEADER_SIZE ?hb m "4 * (SIGN_WIDTH * r)", OF le0 cW pre,
        unfolded e4 e3]
    note R = row_rgb_nth[OF cW, of m r]
    from k3 consider "k = 0" | "k = 1" | "k = 2" by linarith
    then show ?thesis
    proof cases
      case 1
      then have "j = 7 + 3 * c" using jeq by simp
      then show ?thesis using L R row_image_pixel[of m r "3 * c"] by simp
    next
      case 2
      then have "j = 7 + 3 * c + 1" using jeq by simp
      then show ?thesis using L R row_image_pixel[of m r "3 * c + 1"] by (simp add: add.assoc)
    next
      case 3
      then have "j = 7 + 3 * c + 2" using jeq by simp
      then show ?thesis using L R row_image_pixel[of m r "3 * c + 2"] by (simp add: add.assoc)
    qed
  qed
qed

lemma pixel_loop_row:
  assumes "length buf = payload_length"
  shows "pixel_loop 0 m (4 * (SIGN_WIDTH * r)) (write_row_header r buf) ROW_HEADER_SIZE
           = (row_image m r, 4 * (SIGN_WIDTH * (r + 1)))"
proof (rule prod_eqI)
  show "fst (pixel_loop 0 m (4 * (SIGN_WIDTH * r)) (write_row_header r buf) ROW_HEADER_SIZE)
          = fst (row_image m r, 4 * (SIGN_WIDTH * (r + 1)))"
    using encode_row[OF assms] by simp
  show "snd (pixel_loop 0 m (4 * (SIGN_WIDTH * r)) (write_row_header r buf) ROW_HEADER_SIZE)
          = snd (row_image m r, 4 * (SIGN_WIDTH * (r + 1)))"
    by (simp add: pixel_loop_src BYTES_PER_PIXEL_def)
qed

subsection \<open>All rows\<close>

lemma row_loop_closed:
  "length buf = payload_length \<Longrightarrow> src = 4 * (SIGN_WIDTH * row) \<Longrightarrow>
   snd (row_loop row m src buf len sk sent)
     = sent @ map (\<lambda>r. send_row (row_image m r) len sk) [row..<SIGN_HEIGHT] \<and>
   length (fst (row_loop row m src buf len sk sent)) = payload_length"
proof (induction row m src buf len sk sent rule: row_loop.induct)
  case (1 row m src buf len sk sent)
  show ?case
  proof (cases "row < SIGN_HEIGHT")
    case True
    have pl: "pixel_loop 0 m src (write_row_header row buf) ROW_HEADER_SIZE
                = (row_image m row, 4 * (SIGN_WIDTH * (row + 1)))"
      using pixel_loop_row[OF 1(2)] 1(3) by simp
    have unf: "row_loop row m src buf len sk sent
                = row_loop (row + 1) m (4 * (SIGN_WIDTH * (row + 1))) (row_image m row) len sk
                    (sent @ [send_row (row_image m row) len sk])"
      using True by (subst row_loop.simps) (simp add: pl)
    have IH: "snd (row_loop (row + 1) m (4 * (SIGN_WIDTH * (row + 1))) (row_image m row) len sk
                    (sent @ [send_row (row_image m row) len sk]))
              = (sent @ [send_row (row_image m row) len sk]) @
                  map (\<lambda>r. send_row (row_image m r) len sk) [row + 1..<SIGN_HEIGHT] \<and>
              length (fst (row_loop (row + 1) m (4 * (SIGN_WIDTH * (row + 1))) (row_image m row)
                    len sk (sent @ [send_row (row_image m row) len sk]))) = payload_length"
      by (rule 1(1)[OF True pl[symmetric] length_row_image refl])
    have upt: "[row..<SIGN_HEIGHT] = row # [row + 1..<SIGN_HEIGHT]"
      using True by (simp add: upt_conv_Cons)
    show ?thesis unfolding unf upt using IH by simp
  next
    case False
    then show ?thesis using 1(2) by (subst (1 2) row_loop.simps) simp
  qed
qed

lemma send_row_image:
  "send_row (row_image m r) payload_length sk =
     \<lparr>ether_shost = encode_mac (src_mac sk), ether_dhost = encode_mac DEST_MAC,
      ether_type = ROW_ETHER_TYPE, payload = row_image m r\<rparr>"
  using length_row_image[of m r]
  by (simp add: send_row_def send_socket_def payload_length_def ROW_HEADER_SIZE_def SIGN_WIDTH_def
        ETHER_HEADER_SIZE_def BUF_SIZ_def)

lemma ether_type_row_packets:
  "map ether_type (row_packets m sk) = replicate SIGN_HEIGHT ROW_ETHER_TYPE"
  by (simp add: row_packets_def send_row_image comp_def map_replicate_const)

lemma first_byte_row_packets:
  "map (\<lambda>p. payload p ! 0) (row_packets m sk) = map of_nat [0..<SIGN_HEIGHT]"
proof -
  have "payload (send_row (row_image m r) payload_length sk) ! 0 = of_nat r" for r
    by (simp add: send_row_image) (simp add: row_image_def)
  then show ?thesis by (simp add: row_packets_def)
qed

lemma process_valid:
  assumes len: "length (reply_str e) = SIGN_WIDTH * SIGN_HEIGHT * BYTES_PER_PIXEL"
    and buf: "length (row_buf s) = payload_length"
  shows "\<exists>buf'. process_and_send_frame (REDIS_OK (Some (REDIS_REPLY_ARRAY (k # e # rest))))
            (REDIS_OK rb) payload_length s
          = Inr (0, row_packets (reply_str e) (apply_brightness rb (sock s)),
                 s\<lparr>sock := apply_brightness rb (sock s), row_buf := buf'\<rparr>)
          \<and> length buf' = payload_length"
proof -
  let ?sk = "apply_brightness rb (sock s)"
  obtain buf' sent
    where rl: "row_loop 0 (reply_str e) 0 (row_buf s) payload_length ?sk [] = (buf', sent)"
    by (cases "row_loop 0 (reply_str e) 0 (row_buf s) payload_length ?sk []")
  have "snd (row_loop 0 (reply_str e) 0 (row_buf s) payload_length ?sk [])
          = [] @ map (\<lambda>r. send_row (row_image (reply_str e) r) payload_length ?sk) [0..<SIGN_HEIGHT]
        \<and> length (fst (row_loop 0 (reply_str e) 0 (row_buf s) payload_length ?sk []))
            = payload_length"
    by (rule row_loop_closed[OF buf]) simp
  then have sent: "sent = row_packets (reply_str e) ?sk" and lb: "length buf' = payload_length"
    using rl by (simp_all add: row_packets_def)
  show ?thesis
    using len rl sent lb
    by (intro exI[of _ buf']) (simp add: process_and_send_frame_def blpop_element_def Let_def)
qed

subsection \<open>The wait for the deadline\<close>

lemma wait_loop_returns:
  "FPS_SLEEP \<le> get_time_diff started (clk (tick + d)) \<Longrightarrow>
   \<exists>t. wait_loop clk started tick e = Some t"
proof (induction d arbitrary: tick e)
  case 0
  show ?case
  proof (cases "e < FPS_SLEEP")
    case True
    have "wait_loop clk started tick e
            = wait_loop clk started (Suc tick) (get_time_diff started (clk tick))"
      using True by (subst wait_loop.simps) simp
    also have "\<dots> = Some (Suc tick)"
      using 0 by (subst wait_loop.simps) simp
    finally show ?thesis by blast
  next
    case False
    then show ?thesis by (subst wait_loop.simps) simp
  qed
next
  case (Suc d)
  show ?case
  proof (cases "e < FPS_SLEEP")
    case True
    have "wait_loop clk started tick e
            = wait_loop clk started (Suc tick) (get_time_diff started (clk tick))"
      using True by (subst wait_loop.simps) simp
    moreover have "\<exists>t. wait_loop clk started (Suc tick) (get_time_diff started (clk tick)) = Some t"
      using Suc.prems by (intro Suc.IH) simp
    ultimately show ?thesis by simp
  next
    case False
    then show ?thesis by (subst wait_loop.simps) simp
  qed
qed

lemma wait_returns:
  assumes "FPS_SLEEP \<le> get_time_diff started (clk (tick + d))"
  shows "\<exists>t. wait_loop clk started (Suc tick) (get_time_diff started (clk tick)) = Some t"
proof (cases d)
  case 0
  then show ?thesis using assms by (subst wait_loop.simps) simp
next
  case (Suc d')
  then show ?thesis using assms
    by (intro wait_loop_returns[where tick = "Suc tick" and d = d']) simp
qed

lemma no_frame_no_packet:
  "process_and_send_frame reply1 reply2 payload_length s = Inr (rc, pkts, s1) \<Longrightarrow> rc \<noteq> 0 \<Longrightarrow>
   pkts = [] \<and> main_iteration clk reply1 reply2 s = Some (Inr ([], s1))"
  by (auto simp: main_iteration_def process_and_send_frame_def Let_def
      split: get_reply.splits option.splits redisReply.splits sum.splits if_splits prod.splits)

text \<open>
  C1. When the pipelined replies of an iteration are both received, the first carries a
  frame of 320 * 64 * 4 bytes, and the clock reaches the deadline at some reading, the
  iteration returns having sent exactly 65 packets: 64 row packets whose first payload
  bytes are the row indices 0 to 63 in ascending order, then one commit packet.
\<close>

theorem rows_then_commit:
  assumes "length (reply_str e) = SIGN_WIDTH * SIGN_HEIGHT * BYTES_PER_PIXEL"
    and "length (row_buf s) = payload_length"
    and "FPS_SLEEP \<le> get_time_diff (send_started s) (clk (ticks s + d))"
  shows "\<exists>pkts s'.
           main_iteration clk (REDIS_OK (Some (REDIS_REPLY_ARRAY (k # e # rest)))) (REDIS_OK rb) s
             = Some (Inr (pkts, s')) \<and>
           map ether_type pkts = replicate SIGN_HEIGHT ROW_ETHER_TYPE @ [FRAME_ETHER_TYPE] \<and>
           map (\<lambda>p. payload p ! 0) (take SIGN_HEIGHT pkts) = map of_nat [0..<SIGN_HEIGHT]"
proof -
  let ?sk = "apply_brightness rb (sock s)"
  obtain buf' where p: "process_and_send_frame (REDIS_OK (Some (REDIS_REPLY_ARRAY (k # e # rest))))
            (REDIS_OK rb) payload_length s
          = Inr (0, row_packets (reply_str e) ?sk, s\<lparr>sock := ?sk, row_buf := buf'\<rparr>)"
    using process_valid[OF assms(1,2)] by blast
  obtain t where w: "wait_loop clk (send_started s) (Suc (ticks s))
                       (get_time_diff (send_started s) (clk (ticks s))) = Some t"
    using wait_returns[where started = "send_started s" and clk = clk and tick = "ticks s"
        and d = d, OF assms(3)] by blast
  have lr: "length (row_packets (reply_str e) ?sk) = SIGN_HEIGHT"
    by (simp add: row_packets_def)
  have ct: "ether_type (fst (send_frame sk)) = FRAME_ETHER_TYPE" for sk
    by (simp add: send_frame_def send_socket_def Let_def)
  obtain pkts s' where m: "main_iteration clk (REDIS_OK (Some (REDIS_REPLY_ARRAY (k # e # rest))))
             (REDIS_OK rb) s = Some (Inr (pkts, s'))"
    and pk: "pkts = row_packets (reply_str e) ?sk @ [fst (send_frame ?sk)]"
    by (simp add: main_iteration_def p w Let_def split_beta)
  show ?thesis
    using m pk lr by (simp add: ether_type_row_packets first_byte_row_packets ct)
qed

theorem rows_then_commit_witness:
  "length (reply_str (REDIS_REPLY_STRING grey_frame)) = SIGN_WIDTH * SIGN_HEIGHT * BYTES_PER_PIXEL \<and>
   length (row_buf fresh_sender) = payload_length \<and>
   FPS_SLEEP \<le> get_time_diff (send_started fresh_sender) (second_clock (ticks fresh_sender + 0)) \<and>
   (\<exists>pkts s'.
      main_iteration second_clock (frame_reply grey_frame) (REDIS_OK None) fresh_sender
        = Some (Inr (pkts, s')) \<and>
      map ether_type pkts = replicate SIGN_HEIGHT ROW_ETHER_TYPE @ [FRAME_ETHER_TYPE] \<and>
      map (\<lambda>p. payload p ! 0) (take SIGN_HEIGHT pkts) = map of_nat [0..<SIGN_HEIGHT])"
proof -
  have h1: "length (reply_str (REDIS_REPLY_STRING grey_frame))
              = SIGN_WIDTH * SIGN_HEIGHT * BYTES_PER_PIXEL"
    by (simp add: grey_frame_def)
  have h2: "length (row_buf fresh_sender) = payload_length"
    by (simp add: fresh_sender_def sender_init_def)
  have h3: "FPS_SLEEP \<le> get_time_diff (send_started fresh_sender)
                          (second_clock (ticks fresh_sender + 0))"
    by (simp add: fresh_sender_def sender_init_def second_clock_def get_time_diff_def
          FPS_SLEEP_def FPS_def)
  show ?thesis
    using rows_then_commit[where e = "REDIS_REPLY_STRING grey_frame" and s = fresh_sender
        and clk = second_clock and d = 0 and k = "REDIS_REPLY_STRING (bytes ''player:frames'')"
        and rest = "[]" and rb = None, OF h1 h2 h3]
      h1 h2 h3
    unfolding frame_reply_def by blast
qed

text \<open>
  C2. For a received frame of 320 * 64 * 4 bytes and every pixel index \<open>i\<close>, the packet
  sent for row \<open>i div 320\<close> carries that row index in its first byte and has a payload
  of 7 + 3 * 320 bytes, and its three bytes for the pixel, behind the header at
  3 * (i mod 320), are the frame's bytes 4i+2, 4i+1 and 4i, unchanged; the byte 4i+3 is
  not sent.
\<close>

theorem bgra_to_rgb:
  assumes "length (reply_str e) = SIGN_WIDTH * SIGN_HEIGHT * BYTES_PER_PIXEL"
    and "length (row_buf s) = payload_length"
    and "i < SIGN_WIDTH * SIGN_HEIGHT"
  shows "\<exists>pkts s'.
           process_and_send_frame (REDIS_OK (Some (REDIS_REPLY_ARRAY (k # e # rest)))) (REDIS_OK rb)
               payload_length s = Inr (0, pkts, s') \<and>
           payload (pkts ! (i div SIGN_WIDTH)) ! 0 = of_nat (i div SIGN_WIDTH) \<and>
           length (payload (pkts ! (i div SIGN_WIDTH))) = ROW_HEADER_SIZE + 3 * SIGN_WIDTH \<and>
           payload (pkts ! (i div SIGN_WIDTH)) ! (ROW_HEADER_SIZE + 3 * (i mod SIGN_WIDTH))
             = reply_str e ! (4 * i + 2) \<and>
           payload (pkts ! (i div SIGN_WIDTH)) ! (ROW_HEADER_SIZE + 3 * (i mod SIGN_WIDTH) + 1)
             = reply_str e ! (4 * i + 1) \<and>
           payload (pkts ! (i div SIGN_WIDTH)) ! (ROW_HEADER_SIZE + 3 * (i mod SIGN_WIDTH) + 2)
             = reply_str e ! (4 * i)"
proof -
  let ?sk = "apply_brightness rb (sock s)"
  let ?m = "reply_str e"
  let ?r = "i div SIGN_WIDTH" and ?c = "i mod SIGN_WIDTH"
  obtain buf' where p: "process_and_send_frame (REDIS_OK (Some (REDIS_REPLY_ARRAY (k # e # rest))))
            (REDIS_OK rb) payload_length s
          = Inr (0, row_packets ?m ?sk, s\<lparr>sock := ?sk, row_buf := buf'\<rparr>)"
    using process_valid[OF assms(1,2)] by blast
  have r: "?r < SIGN_HEIGHT" using assms(3) by (simp add: less_mult_imp_div_less mult.commute)
  have c: "?c < SIGN_WIDTH" by (simp add: SIGN_WIDTH_def)
  have pl: "payload (row_packets ?m ?sk ! ?r) = row_image ?m ?r"
    using r by (simp add: row_packets_def send_row_image)
  have i: "SIGN_WIDTH * ?r + ?c = i" by simp
  note R = row_rgb_nth[OF c, of ?m ?r, unfolded i]
  have RI: "row_image ?m ?r ! (ROW_HEADER_SIZE + j) = row_rgb ?m ?r ! j" for j
    using row_image_pixel[of ?m ?r j] by (simp add: ROW_HEADER_SIZE_def)
  have len: "length (row_image ?m ?r) = ROW_HEADER_SIZE + 3 * SIGN_WIDTH"
    using length_row_image[of ?m ?r] by (simp add: payload_length_def)
  have hd: "row_image ?m ?r ! 0 = of_nat ?r" by (simp add: row_image_def)
  show ?thesis
    using p pl R RI[of "3 * ?c"] RI[of "3 * ?c + 1"] RI[of "3 * ?c + 2"] len hd
    by (simp add: add.assoc)
qed

theorem bgra_to_rgb_witness:
  "length (reply_str (REDIS_REPLY_STRING grey_frame)) = SIGN_WIDTH * SIGN_HEIGHT * BYTES_PER_PIXEL \<and>
   length (row_buf fresh_sender) = payload_length \<and>
   (20479 :: nat) < SIGN_WIDTH * SIGN_HEIGHT \<and>
   (\<exists>pkts s'.
      process_and_send_frame (frame_reply grey_frame) (REDIS_OK None) payload_length fresh_sender
        = Inr (0, pkts, s') \<and>
      payload (pkts ! (20479 div SIGN_WIDTH)) ! 0 = of_nat (20479 div SIGN_WIDTH) \<and>
      length (payload (pkts ! (20479 div SIGN_WIDTH))) = ROW_HEADER_SIZE + 3 * SIGN_WIDTH \<and>
      payload (pkts ! (20479 div SIGN_WIDTH)) ! (ROW_HEADER_SIZE + 3 * (20479 mod SIGN_WIDTH))
        = grey_frame ! (4 * 20479 + 2) \<and>
      payload (pkts ! (20479 div SIGN_WIDTH)) ! (ROW_HEADER_SIZE + 3 * (20479 mod SIGN_WIDTH) + 1)
        = grey_frame ! (4 * 20479 + 1) \<and>
      payload (pkts ! (20479 div SIGN_WIDTH)) ! (ROW_HEADER_SIZE + 3 * (20479 mod SIGN_WIDTH) + 2)
        = grey_frame ! (4 * 20479))"
proof -
  have h1: "length (reply_str (REDIS_REPLY_STRING grey_frame))
              = SIGN_WIDTH * SIGN_HEIGHT * BYTES_PER_PIXEL"
    by (simp add: grey_frame_def)
  have h2: "length (row_buf fresh_sender) = payload_length"
    by (simp add: fresh_sender_def sender_init_def)
  have h3: "(20479 :: nat) < SIGN_WIDTH * SIGN_HEIGHT"
    by (simp add: SIGN_WIDTH_def SIGN_HEIGHT_def)
  have e: "reply_str (REDIS_REPLY_STRING grey_frame) = grey_frame" by simp
  show ?thesis
    using bgra_to_rgb[where e = "REDIS_REPLY_STRING grey_frame" and s = fresh_sender
        and i = 20479 and k = "REDIS_REPLY_STRING (bytes ''player:frames'')"
        and rest = "[]" and rb = None, OF h1 h2 h3]
      h1 h2 h3
    unfolding frame_reply_def e by blast
qed

section \<open>Transport: the commit packet and the brightness\<close>

lemmas offsets = FRAME_BRIGHTNESS_OFFSET_def FRAME_GAMMA_FLAG_OFFSET_def
  FRAME_BRIGHTNESS_R_OFFSET_def FRAME_BRIGHTNESS_G_OFFSET_def FRAME_BRIGHTNESS_B_OFFSET_def

lemma template_ok_init: "template_ok (socket_init mac)"
  by (simp add: template_ok_def socket_init_def)

lemma template_ok_set: "template_ok sk \<Longrightarrow> template_ok (set_brightness b sk)"
  by (simp add: template_ok_def set_brightness_def Let_def)

lemma template_ok_send: "template_ok sk \<Longrightarrow> template_ok (snd (send_frame sk))"
  by (simp add: template_ok_def send_frame_def Let_def offsets)

lemma template_ok_calls: "template_ok sk \<Longrightarrow> template_ok (socket_calls cs sk)"
  by (induction cs sk rule: socket_calls.induct) (simp_all add: template_ok_set template_ok_send)

lemma uint_byte: "0 \<le> b \<Longrightarrow> b \<le> 255 \<Longrightarrow> uint (word_of_int b :: u8) = b"
  by (simp add: uint_word_of_int take_bit_int_eq_self)

lemma send_frame_payload_bytes:
  assumes "length (frame_data sk) = FRAME_DATA_LENGTH"
  shows "payload (fst (send_frame sk)) =
        (frame_data sk)[21 := word_of_int (current_brightness sk), 22 := 5,
           24 := word_of_int (current_brightness sk), 25 := word_of_int (current_brightness sk),
           26 := word_of_int (current_brightness sk)]"
  using assms
  by (simp add: send_frame_def send_socket_def Let_def FRAME_DATA_LENGTH_def
        ETHER_HEADER_SIZE_def BUF_SIZ_def offsets)

lemma send_frame_payload:
  assumes "template_ok sk"
  shows "map uint (payload (fst (send_frame sk)))
           = (replicate 98 0)[21 := current_brightness sk, 22 := 5, 24 := current_brightness sk,
                25 := current_brightness sk, 26 := current_brightness sk]"
proof (rule nth_equalityI)
  have len: "length (frame_data sk) = 98"
    using assms by (simp add: template_ok_def FRAME_DATA_LENGTH_def)
  have p: "payload (fst (send_frame sk)) =
        (frame_data sk)[21 := word_of_int (current_brightness sk), 22 := 5,
           24 := word_of_int (current_brightness sk), 25 := word_of_int (current_brightness sk),
           26 := word_of_int (current_brightness sk)]"
    using len by (intro send_frame_payload_bytes) (simp add: FRAME_DATA_LENGTH_def)
  show "length (map uint (payload (fst (send_frame sk)))) =
        length ((replicate 98 0)[21 := current_brightness sk, 22 := 5,
                24 := current_brightness sk, 25 := current_brightness sk,
                26 := current_brightness sk])"
    unfolding p using len by simp
  fix i
  assume "i < length (map uint (payload (fst (send_frame sk))))"
  then have i: "i < 98" unfolding p using len by simp
  have b: "uint (word_of_int (current_brightness sk) :: u8) = current_brightness sk"
    using assms by (simp add: template_ok_def uint_byte)
  have z: "i \<notin> {21, 22, 24, 25, 26} \<Longrightarrow> frame_data sk ! i = 0"
    using assms i by (simp add: template_ok_def FRAME_DATA_LENGTH_def)
  show "map uint (payload (fst (send_frame sk))) ! i =
        (replicate 98 0)[21 := current_brightness sk, 22 := 5, 24 := current_brightness sk,
                25 := current_brightness sk, 26 := current_brightness sk] ! i"
    unfolding p using i len b z by (simp add: nth_list_update)
qed

text \<open>
  C3. After any sequence of calls of the socket module, starting from its initial
  state, the current brightness \<open>b\<close> lies between 0 and 255, and the payload of the commit
  packet that \<^verbatim>\<open>send_frame\<close> sends then is 98 bytes: \<open>b\<close> at the offsets 21, 24, 25 and
  26, the value 5 at offset 22, and 0 everywhere else.
\<close>

theorem commit_payload:
  "map uint (payload (fst (send_frame (socket_calls cs (socket_init mac)))))
     = (replicate 98 0)
         [21 := current_brightness (socket_calls cs (socket_init mac)),
          22 := 5,
          24 := current_brightness (socket_calls cs (socket_init mac)),
          25 := current_brightness (socket_calls cs (socket_init mac)),
          26 := current_brightness (socket_calls cs (socket_init mac))]
   \<and> 0 \<le> current_brightness (socket_calls cs (socket_init mac))
   \<and> current_brightness (socket_calls cs (socket_init mac)) \<le> 255"
proof -
  have ok: "template_ok (socket_calls cs (socket_init mac))"
    by (rule template_ok_calls[OF template_ok_init])
  show ?thesis using send_frame_payload[OF ok] ok by (simp add: template_ok_def)
qed

lemma atoi_300: "atoi (bytes ''300'') = 300"
  by (simp add: atoi_def bytes_def is_space_def is_digit_def)

text \<open>
  C4, as stated, fails. The sender reads the string \<^verbatim>\<open>300\<close> from the brightness key
  while its brightness is 0: the value clamped into the range would be 255, but the state
  is left as it was, and the commit packet sent next carries 0. The orchestrator receives
  the message \<^verbatim>\<open>150\<close> and stores 150, outside the range 1 to 100.
\<close>

theorem brightness_clamp_counterexample:
  "process_and_send_frame (REDIS_OK (Some REDIS_REPLY_NIL))
       (REDIS_OK (Some (REDIS_REPLY_STRING (bytes ''300'')))) payload_length fresh_sender
     = Inr (- 1, [], fresh_sender) \<and>
   max 0 (min 255 (atoi (bytes ''300''))) = 255 \<and>
   current_brightness (sock fresh_sender) = 0 \<and>
   uint (payload (fst (send_frame (sock fresh_sender))) ! 21) = 0 \<and>
   brightness (subscriber_on_message decimal_number BRIGHTNESS_CHANNEL ''150'' empty_loaded) = 150"
proof -
  have a: "apply_brightness (Some (REDIS_REPLY_STRING (bytes ''300''))) sk = sk" for sk
    by (simp add: apply_brightness_def atoi_300)
  have p: "process_and_send_frame (REDIS_OK (Some REDIS_REPLY_NIL))
       (REDIS_OK (Some (REDIS_REPLY_STRING (bytes ''300'')))) payload_length fresh_sender
     = Inr (- 1, [], fresh_sender)"
    by (simp add: process_and_send_frame_def a)
  have ok: "template_ok (sock fresh_sender)"
    by (simp add: fresh_sender_def sender_init_def template_ok_init)
  have b: "current_brightness (sock fresh_sender) = 0"
    by (simp add: fresh_sender_def sender_init_def socket_init_def)
  have "map uint (payload (fst (send_frame (sock fresh_sender)))) ! 21 = 0"
    unfolding send_frame_payload[OF ok] b by simp
  moreover have "length (payload (fst (send_frame (sock fresh_sender)))) = 98"
    using arg_cong[OF send_frame_payload[OF ok], of length] by simp
  ultimately have c: "uint (payload (fst (send_frame (sock fresh_sender))) ! 21) = 0"
    by simp
  have d: "brightness (subscriber_on_message decimal_number BRIGHTNESS_CHANNEL ''150''
             empty_loaded) = 150"
    by (simp add: subscriber_on_message_def decimal_number_def)
  show ?thesis using p b c d by (simp add: atoi_300)
qed

text \<open>
  C4, amended. When the sender has received both replies and the brightness reply is a
  string whose integer value fits an \<^verbatim>\<open>int\<close>, the brightness becomes that value if
  it lies between 0 and 255, and otherwise stays what it was; the commit packet sent next
  carries that brightness at offset 21. The orchestrator stores the number converted from
  a message on the brightness channel as the renderer's brightness, whatever its value.
\<close>

theorem brightness_on_consumption:
  assumes "process_and_send_frame (REDIS_OK r1) (REDIS_OK (Some (REDIS_REPLY_STRING str)))
             payload_length s = Inr (rc, pkts, s')"
    and "fits_int (atoi str)"
    and "length (frame_data (sock s)) = FRAME_DATA_LENGTH"
  shows "current_brightness (sock s')
           = (if 0 \<le> atoi str \<and> atoi str \<le> 255 then atoi str else current_brightness (sock s)) \<and>
         payload (fst (send_frame (sock s'))) ! 21 = word_of_int (current_brightness (sock s')) \<and>
         brightness (subscriber_on_message Number BRIGHTNESS_CHANNEL message p) = Number message"
proof -
  let ?sk = "apply_brightness (Some (REDIS_REPLY_STRING str)) (sock s)"
  have sk': "sock s' = ?sk"
    using assms(1)
    by (auto simp: process_and_send_frame_def Let_def
        split: option.splits redisReply.splits sum.splits if_splits prod.splits)
  have cb: "current_brightness ?sk
         = (if 0 \<le> atoi str \<and> atoi str \<le> 255 then atoi str else current_brightness (sock s))"
    by (simp add: apply_brightness_def set_brightness_def Let_def)
  have fd: "length (frame_data ?sk) = FRAME_DATA_LENGTH"
    using assms(3) by (simp add: apply_brightness_def set_brightness_def Let_def)
  have "payload (fst (send_frame ?sk)) ! 21 = word_of_int (current_brightness ?sk)"
    unfolding send_frame_payload_bytes[OF fd] using fd by (simp add: FRAME_DATA_LENGTH_def)
  then show ?thesis
    using cb sk' by (simp add: subscriber_on_message_def)
qed

theorem brightness_on_consumption_witness:
  "process_and_send_frame (REDIS_OK (Some REDIS_REPLY_NIL))
       (REDIS_OK (Some (REDIS_REPLY_STRING (bytes ''300'')))) payload_length fresh_sender
     = Inr (- 1, [], fresh_sender) \<and>
   fits_int (atoi (bytes ''300'')) \<and>
   length (frame_data (sock fresh_sender)) = FRAME_DATA_LENGTH \<and>
   current_brightness (sock fresh_sender) = 0 \<and>
   payload (fst (send_frame (sock fresh_sender))) ! 21 = 0 \<and>
   brightness (subscriber_on_message decimal_number BRIGHTNESS_CHANNEL ''150'' empty_loaded) = 150"
proof -
  have a: "apply_brightness (Some (REDIS_REPLY_STRING (bytes ''300''))) sk = sk" for sk
    by (simp add: apply_brightness_def atoi_300)
  have h1: "process_and_send_frame (REDIS_OK (Some REDIS_REPLY_NIL))
       (REDIS_OK (Some (REDIS_REPLY_STRING (bytes ''300'')))) payload_length fresh_sender
     = Inr (- 1, [], fresh_sender)"
    by (simp add: process_and_send_frame_def a)
  have h2: "fits_int (atoi (bytes ''300''))"
    by (simp add: atoi_300 fits_int_def)
  have h3: "length (frame_data (sock fresh_sender)) = FRAME_DATA_LENGTH"
    by (simp add: fresh_sender_def sender_init_def socket_init_def)
  have b: "current_brightness (sock fresh_sender) = 0"
    by (simp add: fresh_sender_def sender_init_def socket_init_def)
  show ?thesis
    using brightness_on_consumption[OF h1 h2 h3, of decimal_number "''150''" empty_loaded]
      h1 h2 h3 b
    by (simp add: atoi_300 decimal_number_def)
qed

section \<open>Ambient controller: the published sequence\<close>

lemma updateBrightness_step:
  assumes "1 \<le> currentBrightness st" "currentBrightness st \<le> 100"
  shows "case updateBrightness lux st of
           (None, st1) \<Rightarrow> currentBrightness st1 = currentBrightness st
         | (Some b, st1) \<Rightarrow> currentBrightness st1 = b \<and> \<bar>b - currentBrightness st\<bar> \<le> 5
                              \<and> 1 \<le> b \<and> b \<le> 100"
proof -
  obtain tgt st1 where l: "luxToBrightness lux st = (tgt, st1)"
    by (cases "luxToBrightness lux st")
  have c: "currentBrightness st1 = currentBrightness st"
    using l by (auto simp: luxToBrightness_def Let_def)
  show ?thesis
    using assms c
    by (auto simp: updateBrightness_def l Let_def BRIGHTNESS_MAX_def BRIGHTNESS_MIN_def
          BRIGHTNESS_INC_MAX_def sgn_if)
qed

lemma sense_loop_rate_limited:
  "1 \<le> currentBrightness st \<Longrightarrow> currentBrightness st \<le> 100 \<Longrightarrow>
   rate_limited (currentBrightness st) (fst (sense_loop rs st))"
proof (induction rs st rule: sense_loop.induct)
  case (1 st)
  then show ?case by simp
next
  case (2 rs st)
  then show ?case by simp
next
  case (3 lux rs st)
  obtain r st1 where u: "updateBrightness lux st = (r, st1)" by (cases "updateBrightness lux st")
  show ?case
  proof (cases r)
    case None
    have c: "currentBrightness st1 = currentBrightness st"
      using updateBrightness_step[OF 3(3,4), of lux] u None by simp
    show ?thesis using 3(1)[OF u[symmetric] None] 3(3,4) c u None by simp
  next
    case (Some b)
    have s: "currentBrightness st1 = b" "\<bar>b - currentBrightness st\<bar> \<le> 5" "1 \<le> b" "b \<le> 100"
      using updateBrightness_step[OF 3(3,4), of lux] u Some by simp_all
    have "rate_limited (currentBrightness st1) (fst (sense_loop rs st1))"
      using 3(2)[OF u[symmetric] Some] s by simp
    then show ?thesis using s u Some by (simp add: split_beta)
  qed
qed

text \<open>
  C6. For every sequence of sensor readings, the values that the ambient controller
  publishes, starting from the current brightness 1, all lie between 1 and 100, and each
  differs by at most 5 from the one published before it (the first from 1).
\<close>

theorem published_rate_limited:
  "rate_limited 1 (fst (sense_loop readings sense_init))"
  using sense_loop_rate_limited[of sense_init readings] by (simp add: sense_init_def)

text \<open>The ramp of the specification's scenario: darkness, then bright light.\<close>

lemma ramp_example:
  "fst (sense_loop [Some 0, Some 10000, Some 10000, None, Some 10000] sense_init) = [6, 11, 16]"
  by (simp add: sense_init_def updateBrightness_def luxToBrightness_def Let_def js_round_def
      LUX_MAX_def GAMMA_def BRIGHTNESS_MAX_def BRIGHTNESS_MIN_def BRIGHTNESS_INC_MAX_def
      WINDOW_SIZE_def)

section \<open>Renderer: the frame loop\<close>

lemma frames_render: "render seek p = (has, err, p1) \<Longrightarrow> frames p1 = frames p"
  by (auto simp: render_def Let_def split: option.splits prod.splits)

lemma movie_render: "render seek p = (has, err, p1) \<Longrightarrow> movie p1 = movie p"
  by (auto simp: render_def Let_def split: option.splits prod.splits)

lemma play_loop_bound:
  "0 \<le> skipped \<Longrightarrow> has \<or> skipped < max 1 (frames p) \<Longrightarrow> skipped \<le> max 1 (frames p) \<Longrightarrow>
   fst (snd (play_loop seek has skipped p)) \<le> max 1 (frames p)"
proof (induction seek has skipped p rule: play_loop.induct)
  case (1 seek has skipped p)
  show ?case
  proof (cases has)
    case True
    then show ?thesis using 1(4) by (subst play_loop.simps) simp
  next
    case False
    obtain h err p1 where r: "render seek p = (h, err, p1)" by (cases "render seek p")
    have f: "frames p1 = frames p" using frames_render[OF r] .
    have lt: "skipped < max 1 (frames p)" using False 1(3) by simp
    show ?thesis
    proof (cases err)
      case (Some e)
      then show ?thesis using False r lt by (subst play_loop.simps) simp
    next
      case None
      let ?p2 = "p1\<lparr>frame := frame p1 + 1\<rparr>"
      let ?has' = "h \<or> frames p1 \<le> skipped + 1"
      show ?thesis
      proof (cases "frames ?p2 \<le> frame ?p2")
        case True
        then show ?thesis using False r None lt by (subst play_loop.simps) (simp add: Let_def)
      next
        case wrap: False
        have unf: "play_loop seek has skipped p = play_loop seek ?has' (skipped + 1) ?p2"
          using False r None wrap by (subst play_loop.simps) (simp add: Let_def)
        have "fst (snd (play_loop seek ?has' (skipped + 1) ?p2)) \<le> max 1 (frames ?p2)"
        proof (rule 1(1)[OF False r[symmetric] refl None refl refl refl wrap])
          show "0 \<le> skipped + 1" using 1(2) by simp
          show "?has' \<or> skipped + 1 < max 1 (frames ?p2)" by auto
          show "skipped + 1 \<le> max 1 (frames ?p2)" using lt f by simp
        qed
        then show ?thesis unfolding unf using f by simp
      qed
    qed
  qed
qed

lemma movie_play_loop: "movie (snd (snd (play_loop seek has skipped p))) = movie p"
proof (induction seek has skipped p rule: play_loop.induct)
  case (1 seek has skipped p)
  show ?case
  proof (cases has)
    case True
    then show ?thesis by (subst play_loop.simps) simp
  next
    case False
    obtain h err p1 where r: "render seek p = (h, err, p1)" by (cases "render seek p")
    have m: "movie p1 = movie p" using movie_render[OF r] .
    show ?thesis
    proof (cases err)
      case (Some e)
      then show ?thesis using False r m by (subst play_loop.simps) simp
    next
      case None
      let ?p2 = "p1\<lparr>frame := frame p1 + 1\<rparr>"
      let ?has' = "h \<or> frames p1 \<le> skipped + 1"
      show ?thesis
      proof (cases "frames ?p2 \<le> frame ?p2")
        case True
        then show ?thesis using False r None m by (subst play_loop.simps) (simp add: Let_def)
      next
        case wrap: False
        have unf: "play_loop seek has skipped p = play_loop seek ?has' (skipped + 1) ?p2"
          using False r None wrap by (subst play_loop.simps) (simp add: Let_def)
        have "movie (snd (snd (play_loop seek ?has' (skipped + 1) ?p2))) = movie ?p2"
          by (rule 1(1)[OF False r[symmetric] refl None refl refl refl wrap])
        then show ?thesis unfolding unf using m by simp
      qed
    qed
  qed
qed

lemma movie_play: "movie (snd (snd (play seek p))) = movie p"
  by (simp add: play_def movie_play_loop split: option.splits)

lemma play_empty_loaded:
  "play still_seek empty_loaded = (Returns_true, 1, empty_loaded\<lparr>calls := [Clear], cycles := 1\<rparr>)"
  by (simp add: play_def empty_loaded_def new_player_def play_loop.simps render_def
      still_seek_def)

text \<open>
  C9, as stated, fails. The movie with an empty screenplay loads with 0 frames; a call
  of \<^verbatim>\<open>play\<close> returns, but after one turn of the loop, which is more than 0.
\<close>

theorem play_turns_counterexample:
  "movie empty_loaded = Some empty_movie \<and> frames empty_loaded = 0 \<and>
   play still_seek empty_loaded
     = (Returns_true, 1, empty_loaded\<lparr>calls := [Clear], cycles := 1\<rparr>) \<and>
   \<not> fst (snd (play still_seek empty_loaded)) \<le> frames empty_loaded"
  by (simp add: play_empty_loaded) (simp add: empty_loaded_def new_player_def)

text \<open>
  C9, amended. With a movie loaded, every call of \<^verbatim>\<open>play\<close> returns, whatever the
  timeline does, after at most \<open>max 1 frames\<close> turns of its loop: at most \<open>frames\<close> turns
  when there is at least one frame, and one turn when there is none.
\<close>

theorem play_returns_within_frames:
  "movie p \<noteq> None \<Longrightarrow>
   (\<exists>r n p'. play seek p = (r, n, p') \<and> n \<le> max 1 (frames p))"
proof -
  assume "movie p \<noteq> None"
  then obtain m where m: "movie p = Some m" by blast
  have "fst (snd (play_loop seek False 0 p)) \<le> max 1 (frames p)"
    by (rule play_loop_bound) simp_all
  then have "fst (snd (play seek p)) \<le> max 1 (frames p)" by (simp add: play_def m)
  then show ?thesis by (cases "play seek p") auto
qed

theorem play_returns_within_frames_witness:
  "movie three_frames \<noteq> None \<and>
   (\<exists>r n p'. play still_seek three_frames = (r, n, p') \<and> n \<le> max 1 (frames three_frames))"
proof -
  have h: "movie three_frames \<noteq> None"
    by (simp add: three_frames_def empty_loaded_def)
  show ?thesis using play_returns_within_frames[OF h, of still_seek] h by blast
qed

text \<open>
  C10. A call of \<^verbatim>\<open>play\<close> on a player without a movie returns \<^verbatim>\<open>undefined\<close> without
  entering the loop and without raising an error, and leaves the whole state of the
  player, the frame counter, the cycle counter and the canvas among it, as it was.
\<close>

theorem play_without_movie:
  "movie p = None \<Longrightarrow> play seek p = (Returns_undefined, 0, p)"
  by (simp add: play_def)

theorem play_without_movie_witness:
  "movie (new_player [] :: unit player) = None \<and>
   play still_seek (new_player []) = (Returns_undefined, 0, new_player [])"
proof -
  have h: "movie (new_player [] :: unit player) = None" by (simp add: new_player_def)
  show ?thesis using play_without_movie[OF h, of still_seek] h by simp
qed

section \<open>Orchestrator: the length of the queue\<close>

lemma movie_messages:
  "movie (fold (\<lambda>(channel, message). subscriber_on_message Number channel message) ms p)
     = movie p"
  by (induction ms arbitrary: p) (auto simp: subscriber_on_message_def)


text \<open>
  When the push brings the queue to exactly \<open>fps\<close> entries, nothing is popped during
  the wait and the broker answers, the turn ends with the queue empty.
\<close>

lemma director_iteration_flush:
  assumes "movie p = Some m"
    and "int (length (drop (popped_before env) q)) + 1 = director_fps m"
    and "rpush_ok env" "popped_during_wait env = 0" "llen_ok env" "del_ok env"
    and "\<forall>e. fst (play seek (fold (\<lambda>(channel, message).
               subscriber_on_message Number channel message) (messages env) p)) \<noteq> Throws e"
  shows "snd (fst (director_iteration seek Number getImageData env (p, q))) = []"
proof -
  let ?p0 = "fold (\<lambda>(channel, message). subscriber_on_message Number channel message)
               (messages env) p"
  obtain r n p1 where pl: "play seek ?p0 = (r, n, p1)" by (cases "play seek ?p0")
  have m1: "movie p1 = Some m"
    using movie_play[of seek ?p0] pl assms(1) by (simp add: movie_messages)
  have r: "\<forall>e. r \<noteq> Throws e" using assms(7) pl by simp
  show ?thesis
    using assms(2-6) m1 r
    by (cases r) (auto simp: director_iteration_def pl Let_def)
qed




section \<open>Renderer: brightness compensation\<close>

subsection \<open>Reading and writing two hexadecimal digits\<close>

lemma hex_digit_val_range: "hex_digit_val c = Some d \<Longrightarrow> 0 \<le> d \<and> d < 16"
  by (auto simp: hex_digit_val_def Let_def split: if_splits)

lemma hex_digit_not_special:
  "hex_digit_val c = Some d \<Longrightarrow>
     \<not> js_space c \<and> c \<noteq> CHR ''-'' \<and> c \<noteq> CHR ''+'' \<and> c \<noteq> CHR ''x'' \<and> c \<noteq> CHR ''X''"
  by (auto simp: hex_digit_val_def js_space_def Let_def split: if_splits)

lemma parseInt16_two:
  assumes "hex_digit_val a = Some x" "hex_digit_val b = Some y"
  shows "parseInt16 [a, b] = Some (16 * x + y)"
  using assms hex_digit_not_special[OF assms(1)] hex_digit_not_special[OF assms(2)]
  by (simp add: parseInt16_def strip_0x_def Let_def)

lemma hex_digit_val_hex_char: "d < 16 \<Longrightarrow> hex_digit_val (hex_char d) = Some (int d)"
proof -
  have "list_all (\<lambda>d. hex_digit_val (hex_char d) = Some (int d)) [0..<16]"
    by code_simp
  then show "d < 16 \<Longrightarrow> hex_digit_val (hex_char d) = Some (int d)"
    by (simp add: list_all_iff)
qed

lemma pad_hex:
  assumes "0 \<le> n" "n \<le> 255"
  shows "padStart2 (toString16 (Some n)) = [hex_char (nat n div 16), hex_char (nat n mod 16)]"
proof (cases "nat n < 16")
  case True
  then have "to_hex (nat n) = [hex_char (nat n)]" by (subst to_hex.simps) simp
  moreover have "hex_char 0 = CHR ''0''" by (simp add: hex_char_def)
  ultimately show ?thesis using assms True by (simp add: padStart2_def toString16_def)
next
  case False
  have d: "nat n div 16 < 16" using assms by simp
  have "to_hex (nat n) = to_hex (nat n div 16) @ [hex_char (nat n mod 16)]"
    using False by (subst to_hex.simps) simp
  also have "to_hex (nat n div 16) = [hex_char (nat n div 16)]"
    using d by (subst to_hex.simps) simp
  finally show ?thesis using assms by (simp add: padStart2_def toString16_def)
qed

lemma parse_pad_hex:
  assumes "0 \<le> n" "n \<le> 255"
  shows "parseInt16 (padStart2 (toString16 (Some n))) = Some n"
proof -
  have h: "nat n div 16 < 16" and l: "nat n mod 16 < 16" using assms by simp_all
  have "parseInt16 [hex_char (nat n div 16), hex_char (nat n mod 16)]
          = Some (16 * int (nat n div 16) + int (nat n mod 16))"
    by (rule parseInt16_two[OF hex_digit_val_hex_char[OF h] hex_digit_val_hex_char[OF l]])
  moreover have "16 * int (nat n div 16) + int (nat n mod 16) = n"
    using assms by (simp add: zdiv_int zmod_int)
  ultimately show ?thesis by (simp add: pad_hex[OF assms])
qed

lemma hex_channels_six:
  "hex_channels (CHR ''#'' # [a1, a2, b1, b2, c1, c2])
     = (parseInt16 [a1, a2], parseInt16 [b1, b2], parseInt16 [c1, c2])"
  by (simp add: hex_channels_def substring_def)

lemma hex_channels_formatted:
  assumes "0 \<le> r" "r \<le> 255" "0 \<le> g" "g \<le> 255" "0 \<le> b" "b \<le> 255"
  shows "hex_channels (CHR ''#'' # padStart2 (toString16 (Some r)) @ padStart2 (toString16 (Some g))
            @ padStart2 (toString16 (Some b))) = (Some r, Some g, Some b)"
  using parse_pad_hex[OF assms(1,2)] parse_pad_hex[OF assms(3,4)] parse_pad_hex[OF assms(5,6)]
  by (simp add: pad_hex assms hex_channels_six)

lemma hex_color_channels:
  assumes "is_hex_color c"
  shows "\<exists>r g b. hex_channels c = (Some r, Some g, Some b) \<and>
           0 \<le> r \<and> r \<le> 255 \<and> 0 \<le> g \<and> g \<le> 255 \<and> 0 \<le> b \<and> b \<le> 255"
proof -
  obtain ds where c: "c = CHR ''#'' # ds" and len: "length ds = 6"
    and hx: "list_all is_hex_digit ds"
    using assms by (auto simp: is_hex_color_def split: list.splits)
  obtain a1 a2 b1 b2 c1 c2 where ds: "ds = [a1, a2, b1, b2, c1, c2]"
    using len by (auto simp: length_Suc_conv numeral_eq_Suc)
  obtain x1 x2 y1 y2 z1 z2 where v:
    "hex_digit_val a1 = Some x1" "hex_digit_val a2 = Some x2"
    "hex_digit_val b1 = Some y1" "hex_digit_val b2 = Some y2"
    "hex_digit_val c1 = Some z1" "hex_digit_val c2 = Some z2"
    using hx ds by (auto simp: is_hex_digit_def)
  have "hex_channels c = (Some (16 * x1 + x2), Some (16 * y1 + y2), Some (16 * z1 + z2))"
    unfolding c ds hex_channels_six
    by (simp add: parseInt16_two[OF v(1,2)] parseInt16_two[OF v(3,4)] parseInt16_two[OF v(5,6)])
  moreover have "0 \<le> 16 * x1 + x2 \<and> 16 * x1 + x2 \<le> 255"
    using hex_digit_val_range[OF v(1)] hex_digit_val_range[OF v(2)] by simp
  moreover have "0 \<le> 16 * y1 + y2 \<and> 16 * y1 + y2 \<le> 255"
    using hex_digit_val_range[OF v(3)] hex_digit_val_range[OF v(4)] by simp
  moreover have "0 \<le> 16 * z1 + z2 \<and> 16 * z1 + z2 \<le> 255"
    using hex_digit_val_range[OF v(5)] hex_digit_val_range[OF v(6)] by simp
  ultimately show ?thesis by blast
qed

subsection \<open>The scale and the rounding\<close>

lemma adjusted_scale_pos: "0 \<le> r + g + b \<Longrightarrow> 1 \<le> x \<Longrightarrow> 0 \<le> adjusted_scale r g b x"
  by (simp add: adjusted_scale_def BRIGHTNESS_SCALING_FACTOR_def DARK_BOOST_def)

lemma adjusted_scale_mono: "x \<le> y \<Longrightarrow> adjusted_scale r g b x \<le> adjusted_scale r g b y"
  by (simp add: adjusted_scale_def BRIGHTNESS_SCALING_FACTOR_def)

lemma adjusted_scale_le_1:
  "300 \<le> r + g + b \<Longrightarrow> x \<le> 100 \<Longrightarrow> adjusted_scale r g b x \<le> 1"
  by (simp add: adjusted_scale_def BRIGHTNESS_SCALING_FACTOR_def)

lemma js_round_mono: "x \<le> y \<Longrightarrow> js_round x \<le> js_round y"
  by (simp add: js_round_def floor_mono)

lemma js_round_int: "js_round (real_of_int v) = v"
  by (simp add: js_round_def)

lemma js_round_nonneg: "0 \<le> x \<Longrightarrow> 0 \<le> js_round x"
  by (simp add: js_round_def)

lemma scaled_range:
  assumes "0 \<le> v" "0 \<le> s"
  shows "0 \<le> min 255 (js_round (real_of_int v * s)) \<and>
         min 255 (js_round (real_of_int v * s)) \<le> 255"
  using js_round_nonneg[of "real_of_int v * s"] assms by simp

lemma adjusted_channels:
  assumes ch: "hex_channels c = (Some r, Some g, Some b)"
    and rng: "0 \<le> r" "0 \<le> g" "0 \<le> b"
    and x: "1 \<le> x" "x \<noteq> 100"
  shows "hex_channels (adjustColorForBrightness c x)
           = (Some (min 255 (js_round (real_of_int r * adjusted_scale r g b x))),
              Some (min 255 (js_round (real_of_int g * adjusted_scale r g b x))),
              Some (min 255 (js_round (real_of_int b * adjusted_scale r g b x))))"
proof -
  let ?s = "adjusted_scale r g b x"
  have s: "0 \<le> ?s" using adjusted_scale_pos[of r g b x] rng x by simp
  have eq: "adjustColorForBrightness c x
          = CHR ''#'' # padStart2 (toString16 (Some (min 255 (js_round (real_of_int r * ?s)))))
              @ padStart2 (toString16 (Some (min 255 (js_round (real_of_int g * ?s)))))
              @ padStart2 (toString16 (Some (min 255 (js_round (real_of_int b * ?s)))))"
    using x(2)
    by (simp add: adjustColorForBrightness_def ch Let_def scaled_channel_def adjusted_scale_def
          BRIGHTNESS_SCALING_FACTOR_def)
  show ?thesis
    unfolding eq
    using scaled_range[OF rng(1) s] scaled_range[OF rng(2) s] scaled_range[OF rng(3) s]
    by (intro hex_channels_formatted) simp_all
qed

text \<open>
  A colour that takes the dark boost loses it at brightness 100, where the colour is
  returned as it is: \<^verbatim>\<open>#323232\<close>, with the average channel 50, has the channels 52
  at brightness 99 and 50 at brightness 100. The order in the brightness below is
  therefore stated up to 100 for colours without boost, and below 100 for all colours.
\<close>

lemma dark_boost_dropped_at_100:
  "is_hex_color ''#323232'' \<and>
   hex_channels ''#323232'' = (Some 50, Some 50, Some 50) \<and>
   hex_channels (adjustColorForBrightness ''#323232'' 99) = (Some 52, Some 52, Some 52) \<and>
   hex_channels (adjustColorForBrightness ''#323232'' 100) = (Some 50, Some 50, Some 50) \<and>
   \<not> channels_le (hex_channels (adjustColorForBrightness ''#323232'' 99))
        (hex_channels (adjustColorForBrightness ''#323232'' 100))"
  by code_simp

lemma adjusted_channels_ordered:
  assumes "is_hex_color c"
    and "hex_channels c = (Some r, Some g, Some b)"
    and "1 \<le> x" and "x \<le> y" and "y \<le> 100"
    and "300 \<le> r + g + b \<or> y < 100"
  shows "channels_le (hex_channels (adjustColorForBrightness c x))
           (hex_channels (adjustColorForBrightness c y))"
proof -
  obtain r' g' b' where ch': "hex_channels c = (Some r', Some g', Some b')"
    and rng': "0 \<le> r'" "r' \<le> 255" "0 \<le> g'" "g' \<le> 255" "0 \<le> b'" "b' \<le> 255"
    using hex_color_channels[OF assms(1)] by blast
  have rng: "0 \<le> r" "0 \<le> g" "0 \<le> b" "r \<le> 255" "g \<le> 255" "b \<le> 255"
    using ch' rng' assms(2) by simp_all
  note ch = assms(2)
  let ?f = "\<lambda>v z. min 255 (js_round (real_of_int v * adjusted_scale r g b z))"
  show ?thesis
  proof (cases "y = 100")
    case y100: True
    have oy: "hex_channels (adjustColorForBrightness c y) = (Some r, Some g, Some b)"
      using y100 ch by (simp add: adjustColorForBrightness_def)
    show ?thesis
    proof (cases "x = 100")
      case True
      then show ?thesis using oy y100 by (simp add: channel_le_def)
    next
      case False
      have sum: "300 \<le> r + g + b" using assms(6) y100 by simp
      have s1: "adjusted_scale r g b x \<le> 1"
        using adjusted_scale_le_1[OF sum] assms(4,5) by simp
      have le: "?f v x \<le> v" if "0 \<le> v" for v
      proof -
        have "real_of_int v * adjusted_scale r g b x \<le> real_of_int v * 1"
          using that s1 by (intro mult_left_mono) simp_all
        then have "js_round (real_of_int v * adjusted_scale r g b x) \<le> js_round (real_of_int v)"
          by (intro js_round_mono) simp
        then show ?thesis by (simp add: js_round_int)
      qed
      have ox: "hex_channels (adjustColorForBrightness c x)
                  = (Some (?f r x), Some (?f g x), Some (?f b x))"
        by (rule adjusted_channels[OF ch rng(1,2,3) assms(3) False])
      show ?thesis
        unfolding ox oy using le[OF rng(1)] le[OF rng(2)] le[OF rng(3)]
        by (simp add: channel_le_def)
    qed
  next
    case False
    then have y: "y \<noteq> 100" "1 \<le> y" and x: "x \<noteq> 100" using assms(3,4,5) by simp_all
    have mono: "?f v x \<le> ?f v y" if "0 \<le> v" for v
    proof -
      have "real_of_int v * adjusted_scale r g b x \<le> real_of_int v * adjusted_scale r g b y"
        using that adjusted_scale_mono[OF assms(4)] by (intro mult_left_mono) simp_all
      then have "js_round (real_of_int v * adjusted_scale r g b x)
                   \<le> js_round (real_of_int v * adjusted_scale r g b y)"
        by (rule js_round_mono)
      then show ?thesis by simp
    qed
    have ox: "hex_channels (adjustColorForBrightness c x)
                = (Some (?f r x), Some (?f g x), Some (?f b x))"
      by (rule adjusted_channels[OF ch rng(1,2,3) assms(3) x])
    have oy: "hex_channels (adjustColorForBrightness c y)
                = (Some (?f r y), Some (?f g y), Some (?f b y))"
      by (rule adjusted_channels[OF ch rng(1,2,3) y(2,1)])
    show ?thesis
      unfolding ox oy using mono[OF rng(1)] mono[OF rng(2)] mono[OF rng(3)]
      by (simp add: channel_le_def)
  qed
qed

text \<open>
  C7. For a hex colour that takes no dark boost (the sum of its channels is at least
  300, that is, the average channel at least 100) and brightness values \<open>x \<le> y\<close> in the
  whole range from 1 to 100, each channel of the colour adjusted for \<open>x\<close> is at most that
  channel of the colour adjusted for \<open>y\<close>.
\<close>

theorem adjusted_channels_monotone:
  assumes "is_hex_color c"
    and "hex_channels c = (Some r, Some g, Some b)"
    and "300 \<le> r + g + b"
    and "1 \<le> x" and "x \<le> y" and "y \<le> 100"
  shows "channels_le (hex_channels (adjustColorForBrightness c x))
           (hex_channels (adjustColorForBrightness c y))"
  using assms by (intro adjusted_channels_ordered[of c r g b x y]) simp_all

theorem adjusted_channels_monotone_witness:
  "is_hex_color ''#FFD700'' \<and>
   hex_channels ''#FFD700'' = (Some 255, Some 215, Some 0) \<and>
   (300 :: int) \<le> 255 + 215 + 0 \<and>
   (1 :: real) \<le> 50 \<and> (50 :: real) \<le> 100 \<and> (100 :: real) \<le> 100 \<and>
   channels_le (hex_channels (adjustColorForBrightness ''#FFD700'' 50))
     (hex_channels (adjustColorForBrightness ''#FFD700'' 100))"
proof -
  have h1: "is_hex_color ''#FFD700''" by code_simp
  have h2: "hex_channels ''#FFD700'' = (Some 255, Some 215, Some 0)" by code_simp
  have h3: "(300 :: int) \<le> 255 + 215 + 0" by simp
  show ?thesis
    using adjusted_channels_monotone[OF h1 h2 h3, of 50 100] h1 h2 by simp
qed

text \<open>
  C8. At brightness 100 the compensation returns its input, whatever string it is,
  character for character.
\<close>

theorem identity_at_full_brightness: "adjustColorForBrightness hexColor 100 = hexColor"
  by (simp add: adjustColorForBrightness_def)

end
